theory Spec2Isabelle
  imports Main "HOL-Library.AList"
begin

section \<open>URLs\<close>

text \<open>
  The engine builds every request URL with the platform's \<^verbatim>\<open>URL\<close> class
  (\<^verbatim>\<open>new URL(relativeURL, baseURL)\<close>, the \<^verbatim>\<open>hash\<close> and \<^verbatim>\<open>search\<close>
  accessors, \<^verbatim>\<open>toString()\<close>). A URL object is modelled by its record of
  components: the query and the fragment are absent (\<open>None\<close>) or present, possibly
  empty. Component strings are kept as the URL object serialises them; the
  percent-encoding the platform parser applies to characters outside the URL code points
  is not modelled.
\<close>

record url =
  u_scheme :: string
  u_host :: string
  u_path :: "string list"
  u_query :: "string option"
  u_fragment :: "string option"

text \<open>The \<^verbatim>\<open>hash\<close> getter: the fragment with its \<^verbatim>\<open>#\<close>, or the empty string
  when the fragment is absent or empty.\<close>

definition hash_get :: "url \<Rightarrow> string" where
  "hash_get u = (case u_fragment u of None \<Rightarrow> [] | Some f \<Rightarrow> if f = [] then [] else CHR ''#'' # f)"

text \<open>The \<^verbatim>\<open>hash\<close> setter: the empty string removes the fragment; otherwise one
  leading \<^verbatim>\<open>#\<close> is dropped and the rest becomes the fragment.\<close>

definition hash_set :: "string \<Rightarrow> url \<Rightarrow> url" where
  "hash_set v u =
     (if v = [] then u\<lparr>u_fragment := None\<rparr>
      else u\<lparr>u_fragment := Some (if hd v = CHR ''#'' then tl v else v)\<rparr>)"

definition search_get :: "url \<Rightarrow> string" where
  "search_get u = (case u_query u of None \<Rightarrow> [] | Some q \<Rightarrow> if q = [] then [] else CHR ''?'' # q)"

definition search_set :: "string \<Rightarrow> url \<Rightarrow> url" where
  "search_set v u =
     (if v = [] then u\<lparr>u_query := None\<rparr>
      else u\<lparr>u_query := Some (if hd v = CHR ''?'' then tl v else v)\<rparr>)"

text \<open>\<^verbatim>\<open>toString()\<close> / \<^verbatim>\<open>href\<close>: the serialisation of a URL with a host.\<close>

definition href :: "url \<Rightarrow> string" where
  "href u =
     u_scheme u @ ''://'' @ u_host u @ concat (map (\<lambda>s. CHR ''/'' # s) (u_path u))
       @ (case u_query u of None \<Rightarrow> [] | Some q \<Rightarrow> CHR ''?'' # q)
       @ (case u_fragment u of None \<Rightarrow> [] | Some f \<Rightarrow> CHR ''#'' # f)"

text \<open>Splitting a string at the first occurrence of a delimiter.\<close>

fun split_first :: "char \<Rightarrow> string \<Rightarrow> string \<times> string option" where
  "split_first d [] = ([], None)"
| "split_first d (c # cs) =
     (if c = d then ([], Some cs)
      else (case split_first d cs of (a, b) \<Rightarrow> (c # a, b)))"

text \<open>The segments of a path string: the pieces between slashes (for the special
  schemes a backslash separates too, which \<open>bs\<close> says).\<close>

fun segments :: "bool \<Rightarrow> string \<Rightarrow> string list" where
  "segments bs [] = [[]]"
| "segments bs (c # cs) =
     (if c = CHR ''/'' \<or> (bs \<and> c = CHR 0x5C) then [] # segments bs cs
      else (case segments bs cs of [] \<Rightarrow> [[c]] | s # ss \<Rightarrow> (c # s) # ss))"

definition is_special :: "string \<Rightarrow> bool" where
  "is_special s \<longleftrightarrow> s \<in> set [''ftp'', ''file'', ''http'', ''https'', ''ws'', ''wss'']"

definition lower :: "string \<Rightarrow> string" where
  "lower s =
     map (\<lambda>c. let n = (of_char c :: nat) in if 65 \<le> n \<and> n \<le> 90 then char_of (n + 32) else c) s"

definition single_dot :: "string \<Rightarrow> bool" where
  "single_dot s \<longleftrightarrow> lower s \<in> set [''.'', ''%2e'']"

definition double_dot :: "string \<Rightarrow> bool" where
  "double_dot s \<longleftrightarrow> lower s \<in> set [''..'', ''.%2e'', ''%2e.'', ''%2e%2e'']"

text \<open>The parser's path state: each segment of the reference is appended to the path;
  a double-dot segment removes the last segment instead, a single-dot segment adds
  nothing, and either one leaves an empty segment when it ends the reference.\<close>

fun path_state :: "string list \<Rightarrow> string list \<Rightarrow> string list" where
  "path_state p [] = p"
| "path_state p (s # ss) =
     (if double_dot s then path_state (butlast p @ (if ss = [] then [[]] else [])) ss
      else if single_dot s then path_state (p @ (if ss = [] then [[]] else [])) ss
      else path_state (p @ [s]) ss)"

text \<open>
  \<^verbatim>\<open>new URL(relativeURL, baseURL)\<close> for a reference without a scheme, resolved
  against a base URL with a host. The reference is cut at its first \<^verbatim>\<open>#\<close> and then
  at its first \<^verbatim>\<open>?\<close>. An empty path keeps the base's path (and the base's query
  when the reference has none); a path that starts with a separator replaces the
  base's path; any other path is resolved against the base's path without its last
  segment. The engine only passes references that start with
  \<^verbatim>\<open>conversations/\<close>, which are of the last kind.
\<close>

definition URL_ctor :: "string \<Rightarrow> url \<Rightarrow> url" where
  "URL_ctor relativeURL baseURL =
     (case split_first (CHR ''#'') relativeURL of (rest, frag) \<Rightarrow>
      case split_first (CHR ''?'') rest of (pth, qry) \<Rightarrow>
        (let bs = is_special (u_scheme baseURL) in
         if pth = [] then
           baseURL\<lparr>u_query := (case qry of None \<Rightarrow> u_query baseURL | Some q \<Rightarrow> Some q),
                    u_fragment := frag\<rparr>
         else if hd pth = CHR ''/'' \<or> (bs \<and> hd pth = CHR 0x5C) then
           baseURL\<lparr>u_path := path_state [] (segments bs (tl pth)),
                    u_query := qry, u_fragment := frag\<rparr>
         else
           baseURL\<lparr>u_path := path_state (butlast (u_path baseURL)) (segments bs pth),
                    u_query := qry, u_fragment := frag\<rparr>))"

text \<open>Source: \<^verbatim>\<open>resolveURLWithQueryAndHash\<close>.\<close>

definition resolveURLWithQueryAndHash :: "string \<Rightarrow> url \<Rightarrow> url" where
  "resolveURLWithQueryAndHash relativeURL baseURL =
     (let url0 = URL_ctor relativeURL baseURL;
          url1 = hash_set (hash_get baseURL) url0;
          url2 = search_set (search_get baseURL) url1
      in url2)"

section \<open>Data of the protocol\<close>

text \<open>An activity is opaque to the engine but for \<^verbatim>\<open>conversation.id\<close>, which the
  server-sent-events reader inspects: the \<^verbatim>\<open>conversation\<close> object may be missing,
  and when present its \<^verbatim>\<open>id\<close> may be missing.\<close>

datatype conversation_account = NoConversation | Conversation "string option"

record activity =
  atype :: string
  atext :: string
  conversation :: conversation_account

datatype transport = Rest | ServerSentEvents

datatype jvalue = JString string | JBoolean bool | JActivity activity

type_synonym jobject = "(string \<times> jvalue) list"

type_synonym headers_init = "(string \<times> string) list"

text \<open>What a strategy's \<^verbatim>\<open>prepareStartNewConversation()\<close> or
  \<^verbatim>\<open>prepareExecuteTurn()\<close> resolves to; \<^verbatim>\<open>body\<close>, \<^verbatim>\<open>headers\<close> and
  \<^verbatim>\<open>transport\<close> are optional.\<close>

record strategy_prep =
  baseURL :: url
  prep_body :: "jobject option"
  prep_headers :: "headers_init option"
  prep_transport :: "transport option"

text \<open>A parsed \<^verbatim>\<open>BotResponse\<close>.\<close>

record bot_response =
  action :: string
  activities :: "activity list"
  bot_conversationId :: "string option"

text \<open>An event of the parsed event stream; \<open>data\<close> is what \<^verbatim>\<open>JSON.parse(data)\<close>
  gives, \<open>None\<close> when it throws.\<close>

record parsed_event =
  event :: "string option"
  data :: "activity option"

text \<open>
  An HTTP response as the engine reads it: the status, the \<^verbatim>\<open>content-type\<close>
  header, the result of \<^verbatim>\<open>parseBotResponse(await response.json())\<close> (\<open>None\<close>
  when either throws) and the body as the stream of events the decoder and the
  event-source parser produce from it (\<open>None\<close> for a response without body). The
  body is taken to arrive whole: a connection that breaks while the body is read is
  not modelled.
\<close>

record response =
  status :: nat
  content_type :: "string option"
  json :: "bot_response option"
  resp_body :: "parsed_event list option"

datatype fetch_result = NetworkError | Response response

record request =
  req_url :: url
  http_method :: string
  req_headers :: headers_init
  req_body :: jobject

datatype error =
    FetchFailed
  | ServerReturned nat
  | InvalidBotResponse
  | WrongContentType "string option"
  | NoBody
  | InvalidEventData
  | NoConversationInActivity
  | StartNotCalled
  | Obsoleted
  | StrategyError string

fun decimal :: "nat \<Rightarrow> string" where
  "decimal n = (if n < 10 then [char_of (48 + n)] else decimal (n div 10) @ [char_of (48 + n mod 10)])"

definition quoted :: "string \<Rightarrow> string" where
  "quoted s = CHR 0x22 # s @ [CHR 0x22]"

text \<open>The messages of the errors the sources construct themselves.\<close>

fun message :: "error \<Rightarrow> string option" where
  "message (ServerReturned s) = Some (''Server returned '' @ decimal s @ '' while calling the service.'')"
| "message (WrongContentType ct) =
     Some (''Server did not respond with content type of '' @ quoted ''text/event-stream''
       @ '', instead, received '' @ quoted (case ct of None \<Rightarrow> ''null'' | Some c \<Rightarrow> c) @ ''.'')"
| "message NoBody = Some ''Server did not respond with body.''"
| "message StartNotCalled = Some ''startNewConversation() must be called before executeTurn().''"
| "message Obsoleted = Some ''This executeTurn() function is obsoleted. Please use a new one.''"
| "message (StrategyError m) = Some m"
| "message _ = None"

section \<open>The engine and its surroundings\<close>

datatype prepare_call = PrepareStartNewConversation | PrepareExecuteTurn

text \<open>
  The mutable state: the engine's private \<^verbatim>\<open>#conversationId\<close>, and the record of
  what the engine did to its collaborators, in order: the HTTP requests issued with
  \<^verbatim>\<open>fetch\<close>, the strategy methods consulted, and the errors reported to the
  telemetry client.
\<close>

record world =
  conversationId :: "string option"
  requests :: "request list"
  prepared :: "prepare_call list"
  tracked :: "error list"

text \<open>
  The collaborators: the strategy (each method may answer differently at each call, or
  reject), the server (the answer to the \<open>n\<close>-th request issued, which may depend on the
  request), whether a telemetry client was given, and the error the retry library
  settles on when the attempts are used up (one of the attempts' errors, chosen by the
  library).
\<close>

record env =
  prepareStartNewConversation :: "nat \<Rightarrow> error + strategy_prep"
  prepareExecuteTurn :: "nat \<Rightarrow> error + strategy_prep"
  server :: "nat \<Rightarrow> request \<Rightarrow> fetch_result"
  telemetry :: bool
  mainError :: "error list \<Rightarrow> error"

definition RETRY_COUNT :: nat where
  "RETRY_COUNT = 4"

definition MAX_TURN :: nat where
  "MAX_TURN = 1000"

text \<open>JavaScript truthiness of a \<^verbatim>\<open>string | undefined\<close>: defined and not empty.\<close>

definition truthy :: "string option \<Rightarrow> bool" where
  "truthy v \<longleftrightarrow> (case v of None \<Rightarrow> False | Some s \<Rightarrow> s \<noteq> [])"

text \<open>\<^verbatim>\<open>this.#conversationId || ''\<close>\<close>

definition id_or_empty :: "string option \<Rightarrow> string" where
  "id_or_empty v = (case v of None \<Rightarrow> [] | Some s \<Rightarrow> s)"

text \<open>\<^verbatim>\<open>response.ok\<close>\<close>

definition ok :: "response \<Rightarrow> bool" where
  "ok r \<longleftrightarrow> 200 \<le> status r \<and> status r \<le> 299"

text \<open>\<^verbatim>\<open>fetch\<close>: the request is recorded and the server's answer to it returned.\<close>

definition fetch :: "env \<Rightarrow> request \<Rightarrow> world \<Rightarrow> fetch_result \<times> world" where
  "fetch e req w = (server e (length (requests w)) req, w\<lparr>requests := requests w @ [req]\<rparr>)"

text \<open>
  \<^verbatim>\<open>pRetry(input, { onFailedAttempt, retries })\<close> of the retry library: \<open>input\<close> is
  run; when it fails \<open>onFailedAttempt\<close> is called, and if that throws the retrying is
  aborted and the promise rejects with what it threw (here always the attempt's own
  error); otherwise \<open>input\<close> is run again, at most \<open>retries\<close> more times, after which
  the promise rejects with the library's main error. A rejected \<^verbatim>\<open>fetch\<close> is a
  network error to the library, which it retries like any other failure. The state
  \<open>'s\<close> is everything the attempts share. \<open>errs\<close> are the errors of the earlier
  attempts. The delays between attempts are not modelled.
\<close>

fun pRetry ::
  "('s \<Rightarrow> (error + 'a) \<times> 's) \<Rightarrow> ('s \<Rightarrow> bool) \<Rightarrow> (error list \<Rightarrow> error) \<Rightarrow> nat \<Rightarrow> error list
     \<Rightarrow> 's \<Rightarrow> (error + 'a) \<times> 's" where
  "pRetry input onFailedAttempt main retries errs s =
     (case input s of
        (Inr v, s') \<Rightarrow> (Inr v, s')
      | (Inl err, s') \<Rightarrow>
          if onFailedAttempt s' then (Inl err, s')
          else (case retries of
                  0 \<Rightarrow> (Inl (main (errs @ [err])), s')
                | Suc r \<Rightarrow> pRetry input onFailedAttempt main r (errs @ [err]) s'))"

declare pRetry.simps [simp del]

text \<open>The \<^verbatim>\<open>onFailedAttempt\<close> callback of both request phases: it rethrows when a
  response was received (by this attempt or an earlier one) and its status is below
  500.\<close>

definition onFailedAttempt :: "'w \<times> response option \<Rightarrow> bool" where
  "onFailedAttempt = (\<lambda>(w, currentResponse).
     case currentResponse of None \<Rightarrow> False | Some r \<Rightarrow> status r < 500)"

text \<open>\<^verbatim>\<open>telemetry && promise.catch(error => ... telemetry.trackException(...))\<close>\<close>

definition report :: "env \<Rightarrow> error \<Rightarrow> world \<Rightarrow> world" where
  "report e err w = (if telemetry e then w\<lparr>tracked := tracked w @ [err]\<rparr> else w)"

text \<open>The headers object literals of the two request phases: the strategy's headers
  (taken as a plain object of header names and values), then
  \<^verbatim>\<open>x-ms-conversationid\<close> when the conversation id is known, then the fixed ones. A
  later key replaces an earlier one of the same name.\<close>

definition conversationHeaders :: "headers_init option \<Rightarrow> string option \<Rightarrow> headers_init" where
  "conversationHeaders headers cid =
     (let h = (case headers of None \<Rightarrow> [] | Some h \<Rightarrow> h)
      in case cid of
           None \<Rightarrow> h
         | Some c \<Rightarrow> if c = [] then h else AList.update ''x-ms-conversationid'' c h)"

definition restHeaders :: "headers_init option \<Rightarrow> string option \<Rightarrow> headers_init" where
  "restHeaders headers cid =
     AList.update ''content-type'' ''application/json'' (conversationHeaders headers cid)"

definition sseHeaders :: "headers_init option \<Rightarrow> string option \<Rightarrow> headers_init" where
  "sseHeaders headers cid =
     AList.update ''content-type'' ''application/json''
       (AList.update ''accept'' ''text/event-stream'' (conversationHeaders headers cid))"

text \<open>What an attempt of \<^verbatim>\<open>#postWithREST\<close> does with the response once
  \<^verbatim>\<open>fetch\<close> has resolved: it throws unless the status is one of 200 to 299 and the
  body parses as a \<^verbatim>\<open>BotResponse\<close>.\<close>

definition restOutcome :: "response \<Rightarrow> error + bot_response" where
  "restOutcome r =
     (if \<not> ok r then Inl (ServerReturned (status r))
      else (case json r of
              None \<Rightarrow> Inl InvalidBotResponse
            | Some botResponse \<Rightarrow> Inr botResponse))"

text \<open>The request an attempt of \<^verbatim>\<open>#postWithREST\<close> sends, given the engine's
  conversation id at that moment.\<close>

definition restRequest ::
  "url \<Rightarrow> headers_init option \<Rightarrow> jobject \<Rightarrow> bool \<Rightarrow> string option \<Rightarrow> request" where
  "restRequest base headers body withBody cid =
     (let url = resolveURLWithQueryAndHash (''conversations/'' @ id_or_empty cid) base
      in \<lparr>req_url = url, http_method = ''POST'',
          req_headers = restHeaders headers cid,
          req_body = (if withBody then body else [])\<rparr>)"

text \<open>
  The function given to \<^verbatim>\<open>pRetry\<close> in \<^verbatim>\<open>#postWithREST\<close>: one attempt. The
  attempts share the engine's state and the variable \<^verbatim>\<open>currentResponse\<close>, which
  \<^verbatim>\<open>fetch\<close> only assigns when it resolves.
\<close>

definition restInput ::
  "env \<Rightarrow> url \<Rightarrow> headers_init option \<Rightarrow> jobject \<Rightarrow> bool \<Rightarrow> world \<times> response option
     \<Rightarrow> (error + bot_response) \<times> (world \<times> response option)" where
  "restInput e base headers body withBody = (\<lambda>(w, currentResponse).
     case fetch e (restRequest base headers body withBody (conversationId w)) w of
       (NetworkError, w') \<Rightarrow> (Inl FetchFailed, (w', currentResponse))
     | (Response r, w') \<Rightarrow> (restOutcome r, (w', Some r)))"

text \<open>
  \<^verbatim>\<open>#postWithREST\<close>, run until the iterator is done or throws: the activities
  yielded, the error thrown if any, and the state left. \<open>numTurn\<close> and \<open>withBody\<close>
  are the loop's variables; \<^verbatim>\<open>currentResponse\<close> is declared anew in each
  iteration.
\<close>

function postWithREST_loop ::
  "env \<Rightarrow> url \<Rightarrow> headers_init option \<Rightarrow> jobject \<Rightarrow> nat \<Rightarrow> bool \<Rightarrow> world
     \<Rightarrow> activity list \<times> error option \<times> world" where
  "postWithREST_loop e base headers body numTurn withBody w =
     (if numTurn < MAX_TURN then
        (case pRetry (restInput e base headers body withBody) onFailedAttempt (mainError e)
                RETRY_COUNT [] (w, None) of
           (Inl err, (w1, _)) \<Rightarrow> ([], Some err, report e err w1)
         | (Inr botResponse, (w1, _)) \<Rightarrow>
             (let w2 = (if truthy (bot_conversationId botResponse)
                        then w1\<lparr>conversationId := bot_conversationId botResponse\<rparr> else w1)
              in if action botResponse \<noteq> ''continue'' then (activities botResponse, None, w2)
                 else (case postWithREST_loop e base headers body (Suc numTurn) False w2 of
                         (ys, r, w3) \<Rightarrow> (activities botResponse @ ys, r, w3))))
      else ([], None, w))"
  by pat_completeness auto
termination
  by (relation "measure (\<lambda>(e, base, headers, body, numTurn, withBody, w). MAX_TURN - numTurn)") auto

declare postWithREST_loop.simps [simp del]

definition postWithREST ::
  "env \<Rightarrow> url \<Rightarrow> headers_init option \<Rightarrow> jobject \<Rightarrow> world \<Rightarrow> activity list \<times> error option \<times> world" where
  "postWithREST e base headers body w = postWithREST_loop e base headers body 0 True w"

text \<open>The test \<^verbatim>\<open>/^text\/event-stream(;|$)/.test(contentType || '')\<close>\<close>

definition is_event_stream :: "string option \<Rightarrow> bool" where
  "is_event_stream contentType =
     (let s = (case contentType of None \<Rightarrow> [] | Some c \<Rightarrow> c)
      in s = ''text/event-stream'' \<or> take 18 s = ''text/event-stream;'')"

text \<open>What an attempt of \<^verbatim>\<open>#postWithServerSentEvents\<close> does with the response.\<close>

definition sseOutcome :: "response \<Rightarrow> error + parsed_event list" where
  "sseOutcome r =
     (if \<not> ok r then Inl (ServerReturned (status r))
      else if \<not> is_event_stream (content_type r) then Inl (WrongContentType (content_type r))
      else (case resp_body r of
              None \<Rightarrow> Inl NoBody
            | Some responseBody \<Rightarrow> Inr responseBody))"

text \<open>The request an attempt of \<^verbatim>\<open>#postWithServerSentEvents\<close> sends.\<close>

definition sseRequest :: "url \<Rightarrow> headers_init option \<Rightarrow> jobject \<Rightarrow> string option \<Rightarrow> request" where
  "sseRequest base headers body cid =
     \<lparr>req_url = resolveURLWithQueryAndHash (''conversations/'' @ id_or_empty cid) base,
      http_method = ''POST'',
      req_headers = sseHeaders headers cid,
      req_body = body\<rparr>"

text \<open>The function given to \<^verbatim>\<open>pRetry\<close> in \<^verbatim>\<open>#postWithServerSentEvents\<close>.\<close>

definition sseInput ::
  "env \<Rightarrow> url \<Rightarrow> headers_init option \<Rightarrow> jobject \<Rightarrow> world \<times> response option
     \<Rightarrow> (error + parsed_event list) \<times> (world \<times> response option)" where
  "sseInput e base headers body = (\<lambda>(w, currentResponse).
     case fetch e (sseRequest base headers body (conversationId w)) w of
       (NetworkError, w') \<Rightarrow> (Inl FetchFailed, (w', currentResponse))
     | (Response r, w') \<Rightarrow> (sseOutcome r, (w', Some r)))"

text \<open>
  The transform stream over the parsed events, read to its end: \<^verbatim>\<open>end\<close> terminates
  the stream, \<^verbatim>\<open>activity\<close> parses the data, adopts the activity's conversation id
  when the engine has none, and passes the activity on; every other event is dropped.
  \<^verbatim>\<open>JSON.parse\<close> may throw, and so does reading \<^verbatim>\<open>.id\<close> of a missing
  \<^verbatim>\<open>conversation\<close>; the stream then fails after the activities already passed on.
\<close>

fun transform :: "parsed_event list \<Rightarrow> world \<Rightarrow> activity list \<times> error option \<times> world" where
  "transform [] w = ([], None, w)"
| "transform (ev # evs) w =
     (if event ev = Some ''end'' then ([], None, w)
      else if event ev = Some ''activity'' then
        (case data ev of
           None \<Rightarrow> ([], Some InvalidEventData, w)
         | Some a \<Rightarrow>
             if \<not> truthy (conversationId w) then
               (case conversation a of
                  NoConversation \<Rightarrow> ([], Some NoConversationInActivity, w)
                | Conversation i \<Rightarrow>
                    (case transform evs (w\<lparr>conversationId := i\<rparr>) of
                       (ys, r, w') \<Rightarrow> (a # ys, r, w')))
             else (case transform evs w of (ys, r, w') \<Rightarrow> (a # ys, r, w')))
      else transform evs w)"

definition postWithServerSentEvents ::
  "env \<Rightarrow> url \<Rightarrow> headers_init option \<Rightarrow> jobject \<Rightarrow> world \<Rightarrow> activity list \<times> error option \<times> world" where
  "postWithServerSentEvents e base headers body w =
     (case pRetry (sseInput e base headers body) onFailedAttempt (mainError e)
             RETRY_COUNT [] (w, None) of
        (Inl err, (w1, _)) \<Rightarrow> ([], Some err, report e err w1)
      | (Inr responseBody, (w1, _)) \<Rightarrow> transform responseBody w1)"

text \<open>\<^verbatim>\<open>#post\<close>\<close>

definition post ::
  "env \<Rightarrow> url \<Rightarrow> jobject \<Rightarrow> headers_init option \<Rightarrow> transport option \<Rightarrow> world
     \<Rightarrow> activity list \<times> error option \<times> world" where
  "post e base body headers transport w =
     (if transport = Some ServerSentEvents then postWithServerSentEvents e base headers body w
      else postWithREST e base headers body w)"

text \<open>The object spread \<^verbatim>\<open>{ ...body, key: value }\<close> over an optional body.\<close>

definition spread :: "jobject option \<Rightarrow> string \<Rightarrow> jvalue \<Rightarrow> jobject" where
  "spread body k v = AList.update k v (case body of None \<Rightarrow> [] | Some b \<Rightarrow> b)"

text \<open>Consulting the strategy: the call is recorded; its answer is the one the
  strategy gives at this call.\<close>

definition prepare :: "env \<Rightarrow> prepare_call \<Rightarrow> world \<Rightarrow> (error + strategy_prep) \<times> world" where
  "prepare e c w =
     ((case c of PrepareStartNewConversation \<Rightarrow> prepareStartNewConversation e
              | PrepareExecuteTurn \<Rightarrow> prepareExecuteTurn e) (length (prepared w)),
      w\<lparr>prepared := prepared w @ [c]\<rparr>)"

text \<open>\<^verbatim>\<open>startNewConversation\<close> and \<^verbatim>\<open>executeTurn\<close>: the iterators they return,
  run until done or thrown. Nothing happens before the first pull.\<close>

definition startNewConversation ::
  "env \<Rightarrow> bool \<Rightarrow> world \<Rightarrow> activity list \<times> error option \<times> world" where
  "startNewConversation e emitStartConversationEvent w =
     (case prepare e PrepareStartNewConversation w of
        (Inl err, w') \<Rightarrow> ([], Some err, w')
      | (Inr p, w') \<Rightarrow>
          post e (baseURL p)
            (spread (prep_body p) ''emitStartConversationEvent'' (JBoolean emitStartConversationEvent))
            (prep_headers p) (prep_transport p) w')"

definition executeTurn ::
  "env \<Rightarrow> activity \<Rightarrow> world \<Rightarrow> activity list \<times> error option \<times> world" where
  "executeTurn e act w =
     (if \<not> truthy (conversationId w) then ([], Some StartNotCalled, w)
      else (case prepare e PrepareExecuteTurn w of
              (Inl err, w') \<Rightarrow> ([], Some err, w')
            | (Inr p, w') \<Rightarrow>
                post e (baseURL p) (spread (prep_body p) ''activity'' (JActivity act))
                  (prep_headers p) (prep_transport p) w'))"

text \<open>A failure at the transport level: \<^verbatim>\<open>fetch\<close> rejects (a network error), or
  the server answers with a status of 500 or more.\<close>

definition transport_failure :: "fetch_result \<Rightarrow> bool" where
  "transport_failure x \<longleftrightarrow> (case x of NetworkError \<Rightarrow> True | Response r \<Rightarrow> 500 \<le> status r)"


section \<open>The turn-generator wrapper\<close>

text \<open>
  Calling \<^verbatim>\<open>startNewConversation\<close> or \<^verbatim>\<open>executeTurn\<close> of the engine only
  creates an iterator; the iterator's body runs when it is pulled.
\<close>

datatype engine_iterator = StartNewConversation bool | ExecuteTurn activity

definition runIterator ::
  "env \<Rightarrow> engine_iterator \<Rightarrow> world \<Rightarrow> activity list \<times> error option \<times> world" where
  "runIterator e it w =
     (case it of
        StartNewConversation emitStartConversationEvent \<Rightarrow>
          startNewConversation e emitStartConversationEvent w
      | ExecuteTurn act \<Rightarrow> executeTurn e act w)"

text \<open>The engine's \<^verbatim>\<open>executeTurn\<close> as the wrapper calls it through the
  \<^verbatim>\<open>HalfDuplexChatAdapterAPI\<close> interface: the call itself does nothing.\<close>

definition engine_executeTurn :: "activity \<Rightarrow> world \<Rightarrow> (error + engine_iterator) \<times> world" where
  "engine_executeTurn act w = (Inr (ExecuteTurn act), w)"

text \<open>
  The function \<^verbatim>\<open>createExecuteTurn(api)\<close> returns is a closure over its own variable
  \<^verbatim>\<open>obsoleted\<close>, which is all the state it has.
\<close>

record turn_handle =
  obsoleted :: bool

definition createExecuteTurn :: turn_handle where
  "createExecuteTurn = \<lparr>obsoleted = False\<rparr>"

text \<open>
  One call of the function \<^verbatim>\<open>createExecuteTurn\<close> returned. \<open>api_executeTurn\<close> is
  \<^verbatim>\<open>api.executeTurn\<close>, awaited: any implementation of the interface, which may
  reject and may change the state \<open>'w\<close> it works on. The promise resolves to the
  generator that wraps the iterator \<open>'g\<close> the API returned.
\<close>

definition executeTurnFunction ::
  "(activity \<Rightarrow> 'w \<Rightarrow> (error + 'g) \<times> 'w) \<Rightarrow> activity \<Rightarrow> turn_handle \<times> 'w
     \<Rightarrow> (error + 'g) \<times> (turn_handle \<times> 'w)" where
  "executeTurnFunction api_executeTurn act = (\<lambda>(h, w).
     if obsoleted h then (Inl Obsoleted, (h, w))
     else (let h' = h\<lparr>obsoleted := True\<rparr>
           in case api_executeTurn act w of (result, w') \<Rightarrow> (result, (h', w'))))"

text \<open>A \<^verbatim>\<open>TurnGenerator\<close> over an engine iterator, run to its end: the activities of
  the iterator, then a new handle as the return value; an error of the iterator
  passes through and no handle is returned.\<close>

definition turnGenerator ::
  "env \<Rightarrow> engine_iterator \<Rightarrow> world \<Rightarrow> activity list \<times> (error + turn_handle) \<times> world" where
  "turnGenerator e it w =
     (case runIterator e it w of
        (ys, Some err, w') \<Rightarrow> (ys, Inl err, w')
      | (ys, None, w') \<Rightarrow> (ys, Inr createExecuteTurn, w'))"

text \<open>\<^verbatim>\<open>createHalfDuplexChatAdapter(strategy, init)()\<close>: a new engine, and the
  generator over its \<^verbatim>\<open>startNewConversation\<close>.\<close>

definition new_engine :: world where
  "new_engine = \<lparr>conversationId = None, requests = [], prepared = [], tracked = []\<rparr>"

definition createHalfDuplexChatAdapter :: "bool option \<Rightarrow> engine_iterator \<times> world" where
  "createHalfDuplexChatAdapter emitStartConversationEvent =
     (StartNewConversation (case emitStartConversationEvent of None \<Rightarrow> True | Some b \<Rightarrow> b),
      new_engine)"

text \<open>Calling one handle with one activity after the other: the results in order.\<close>

fun invocations ::
  "(activity \<Rightarrow> 'w \<Rightarrow> (error + 'g) \<times> 'w) \<Rightarrow> activity list \<Rightarrow> turn_handle \<times> 'w
     \<Rightarrow> (error + 'g) list \<times> (turn_handle \<times> 'w)" where
  "invocations api [] s = ([], s)"
| "invocations api (a # as) s =
     (case executeTurnFunction api a s of
        (r, s') \<Rightarrow> (case invocations api as s' of (rs, s'') \<Rightarrow> (r # rs, s'')))"

section \<open>The chat-adapter facade\<close>

datatype ConnectionStatus =
  Uninitialized | Connecting | Online | ExpiredToken | FailedToConnect | Ended

text \<open>What an observer records of a stream.\<close>

datatype 'a observation = Start | Next 'a | Error error | Complete

text \<open>What calling \<^verbatim>\<open>execute(activity)\<close> does: it throws, it returns a promise that
  rejects, or it resolves to a stream of activities.\<close>

datatype execute_result = Throws error | Rejects error | Resolves "activity list"

text \<open>
  Modelled from the spec: the state of the class \<^verbatim>\<open>TurnBasedChatAdapter\<close>, whose
  source is not among the files (only its test is). The state is what observers
  subscribed from the beginning have recorded of \<^verbatim>\<open>connectionStatus$\<close> and of
  \<^verbatim>\<open>activity$\<close>, and the cached error (section 4.7 of the specification).
\<close>

record facade =
  connectionStatus_seen :: "ConnectionStatus observation list"
  activity_seen :: "activity observation list"
  cached :: "error option"

text \<open>
  Modelled from the spec: the facade once the start callable has resolved and the
  initial activities have been consumed. \<^verbatim>\<open>connectionStatus$\<close> has emitted
  Uninitialized, Connecting and Online, in this order, and each initial activity has
  been republished to \<^verbatim>\<open>activity$\<close>.
\<close>

definition facade_start :: "activity list \<Rightarrow> facade" where
  "facade_start initialActivities =
     \<lparr>connectionStatus_seen = [Start, Next Uninitialized, Next Connecting, Next Online],
      activity_seen = Start # map Next initialActivities,
      cached = None\<rparr>"

text \<open>
  Modelled from the spec: what the facade does when \<^verbatim>\<open>execute\<close> throws. It emits
  FailedToConnect on \<^verbatim>\<open>connectionStatus$\<close> and completes it, completes
  \<^verbatim>\<open>activity$\<close>, and caches the error.
\<close>

definition facade_fail :: "error \<Rightarrow> facade \<Rightarrow> facade" where
  "facade_fail err f =
     f\<lparr>connectionStatus_seen := connectionStatus_seen f @ [Next FailedToConnect, Complete],
       activity_seen := activity_seen f @ [Complete],
       cached := Some err\<rparr>"

text \<open>
  Modelled from the spec: \<^verbatim>\<open>postActivity(activity)\<close> with the \<^verbatim>\<open>execute\<close>
  callable in force, and what its subscriber records. With a cached error the subscriber
  receives that error at once. Otherwise \<^verbatim>\<open>execute\<close> is called: when it throws or
  rejects the subscriber receives the error and the facade fails; when it resolves, the
  activities of its stream are republished to \<^verbatim>\<open>activity$\<close> and the subscriber
  receives an id (whose value the specification leaves open) and completes.
\<close>

definition postActivity ::
  "(activity \<Rightarrow> execute_result) \<Rightarrow> activity \<Rightarrow> facade \<Rightarrow> unit observation list \<times> facade" where
  "postActivity execute act f =
     (case cached f of
        Some err \<Rightarrow> ([Start, Error err], f)
      | None \<Rightarrow>
          (case execute act of
             Throws err \<Rightarrow> ([Start, Error err], facade_fail err f)
           | Rejects err \<Rightarrow> ([Start, Error err], facade_fail err f)
           | Resolves acts \<Rightarrow>
               ([Start, Next (), Complete], f\<lparr>activity_seen := activity_seen f @ map Next acts\<rparr>)))"

text \<open>
  Modelled from the spec: one \<^verbatim>\<open>postActivity\<close> after the other, each with the
  \<^verbatim>\<open>execute\<close> in force at that time; the facade runs one at a time.
\<close>

fun postActivities ::
  "((activity \<Rightarrow> execute_result) \<times> activity) list \<Rightarrow> facade
     \<Rightarrow> unit observation list list \<times> facade" where
  "postActivities [] f = ([], f)"
| "postActivities ((execute, act) # ps) f =
     (case postActivity execute act f of
        (obs, f') \<Rightarrow> (case postActivities ps f' of (os, f'') \<Rightarrow> (obs # os, f'')))"

section \<open>Concrete collaborators\<close>

text \<open>The strategy and the servers of the repository's tests, on which the theorems
  below are run.\<close>

definition test_baseURL :: url where
  "test_baseURL =
     \<lparr>u_scheme = ''http'', u_host = ''test'', u_path = [[]],
      u_query = Some ''api=start'', u_fragment = Some ''1''\<rparr>"

definition test_prep :: "transport \<Rightarrow> strategy_prep" where
  "test_prep t =
     \<lparr>baseURL = test_baseURL, prep_body = Some [(''dummy'', JString ''dummy'')],
      prep_headers = Some [(''x-dummy'', ''dummy'')], prep_transport = Some t\<rparr>"

definition message_activity :: "string \<Rightarrow> activity" where
  "message_activity s = \<lparr>atype = ''message'', atext = s, conversation = NoConversation\<rparr>"

definition json_response :: "bot_response \<Rightarrow> fetch_result" where
  "json_response b =
     Response \<lparr>status = 200, content_type = Some ''application/json'', json = Some b,
               resp_body = None\<rparr>"

definition status_response :: "nat \<Rightarrow> fetch_result" where
  "status_response s =
     Response \<lparr>status = s, content_type = None, json = None, resp_body = None\<rparr>"

definition test_env :: "transport \<Rightarrow> (nat \<Rightarrow> request \<Rightarrow> fetch_result) \<Rightarrow> env" where
  "test_env t srv =
     \<lparr>prepareStartNewConversation = (\<lambda>n. Inr (test_prep t)),
      prepareExecuteTurn = (\<lambda>n. Inr (test_prep t)),
      server = srv, telemetry = False, mainError = last\<rparr>"

text \<open>Three activities over three hops, then no answer.\<close>

definition three_hops :: "nat \<Rightarrow> request \<Rightarrow> fetch_result" where
  "three_hops n req =
     (if n = 0 then json_response \<lparr>action = ''continue'',
          activities = [message_activity ''Hello, World!''], bot_conversationId = Some ''c-00001''\<rparr>
      else if n = 1 then json_response \<lparr>action = ''continue'',
          activities = [message_activity ''Aloha!''], bot_conversationId = None\<rparr>
      else if n = 2 then json_response \<lparr>action = ''waiting'',
          activities = [message_activity ''Bye''], bot_conversationId = None\<rparr>
      else NetworkError)"

text \<open>A server that names the conversation differently in each answer.\<close>

definition id_changing :: "nat \<Rightarrow> request \<Rightarrow> fetch_result" where
  "id_changing n req =
     (if n = 0 then json_response \<lparr>action = ''waiting'',
          activities = [message_activity ''Hello, World!''], bot_conversationId = Some ''c-00001''\<rparr>
      else json_response \<lparr>action = ''waiting'',
          activities = [message_activity ''Aloha!''], bot_conversationId = Some ''c-00002''\<rparr>)"

text \<open>A server that answers once with an event stream of two activities, which name the
  conversation, and the closing event.\<close>

definition conversation_activity :: "string \<Rightarrow> string \<Rightarrow> activity" where
  "conversation_activity c s =
     \<lparr>atype = ''message'', atext = s, conversation = Conversation (Some c)\<rparr>"

definition event_stream :: "nat \<Rightarrow> request \<Rightarrow> fetch_result" where
  "event_stream n req =
     (if n = 0 then
        Response \<lparr>status = 200, content_type = Some ''text/event-stream'', json = None,
          resp_body = Some
            [\<lparr>event = Some ''activity'', data = Some (conversation_activity ''c-00001'' ''Hello, World!'')\<rparr>,
             \<lparr>event = Some ''activity'', data = Some (conversation_activity ''c-00001'' ''Aloha!'')\<rparr>,
             \<lparr>event = Some ''end'', data = None\<rparr>]\<rparr>
      else NetworkError)"

text \<open>A server that is unavailable once and then does not know the conversation, and one
  that answers with JSON where an event stream is expected.\<close>

definition unavailable_then_not_found :: "nat \<Rightarrow> request \<Rightarrow> fetch_result" where
  "unavailable_then_not_found n req = (if n = 0 then status_response 503 else status_response 404)"

definition json_not_events :: "nat \<Rightarrow> request \<Rightarrow> fetch_result" where
  "json_not_events n req =
     Response \<lparr>status = 200, content_type = Some ''application/json'', json = None,
       resp_body = Some []\<rparr>"

text \<open>A server that never lets the turn end.\<close>

definition always_continue :: "nat \<Rightarrow> request \<Rightarrow> fetch_result" where
  "always_continue n req =
     json_response \<lparr>action = ''continue'', activities = [message_activity ''Hello, World!''],
       bot_conversationId = None\<rparr>"

text \<open>A server that is unavailable once and then never lets the turn end.\<close>

definition unavailable_then_continue :: "nat \<Rightarrow> request \<Rightarrow> fetch_result" where
  "unavailable_then_continue n req =
     (if n = 0 then status_response 503 else always_continue n req)"

section \<open>States of a request phase\<close>

text \<open>
  The state the attempts of one request phase share, before attempt \<open>j\<close>, as long as
  no response below 500 has been received: the phase started in \<open>w0\<close> with \<open>n0\<close> requests
  issued; only requests have been added, one per attempt, and
  \<^verbatim>\<open>currentResponse\<close> is unassigned or holds a status of 500 or more.
\<close>

definition retryable_state :: "nat \<Rightarrow> world \<Rightarrow> nat \<Rightarrow> world \<times> response option \<Rightarrow> bool" where
  "retryable_state n0 w0 j = (\<lambda>(w, cur).
     conversationId w = conversationId w0 \<and> prepared w = prepared w0 \<and> tracked w = tracked w0
     \<and> length (requests w) = n0 + j
     \<and> (case cur of None \<Rightarrow> True | Some r \<Rightarrow> 500 \<le> status r))"

section \<open>Retrying\<close>

text \<open>Two facts about \<open>pRetry\<close>, for any function retried. \<open>P j\<close> describes the
  shared state before attempt \<open>j\<close>.\<close>

lemma pRetry_exhaust:
  assumes retry: "\<And>j s. j \<le> r \<Longrightarrow> P j s
              \<Longrightarrow> \<exists>err s'. input s = (Inl err, s') \<and> \<not> onF s' \<and> P (Suc j) s'"
      and "P 0 s"
  shows "\<exists>errs' s'. pRetry input onF main r errs s = (Inl (main errs'), s') \<and> P (Suc r) s'"
  using assms
proof (induction r arbitrary: errs s P)
  case 0
  then obtain err s' where "input s = (Inl err, s')" "\<not> onF s'" "P (Suc 0) s'" by blast
  then show ?case by (auto simp: pRetry.simps)
next
  case (Suc r)
  from Suc.prems(1)[of 0 s] Suc.prems(2)
  obtain err s' where st: "input s = (Inl err, s')" "\<not> onF s'" "P (Suc 0) s'" by blast
  have "\<exists>errs' s''. pRetry input onF main r (errs @ [err]) s' = (Inl (main errs'), s'')
          \<and> P (Suc (Suc r)) s''"
    using Suc.IH[of "\<lambda>j. P (Suc j)" s' "errs @ [err]"] Suc.prems(1) st(3) by auto
  then show ?case using st by (auto simp: pRetry.simps[of _ _ _ "Suc r"])
qed


section \<open>The single-use turn handle\<close>

lemma invocations_obsoleted:
  "obsoleted h \<Longrightarrow> invocations api as (h, w) = (replicate (length as) (Inl Obsoleted), (h, w))"
  by (induction as) (simp_all add: executeTurnFunction_def)

text \<open>
  Claim C1. A handle returned as the terminal value of a turn generator can be invoked
  successfully at most once: of any series of invocations, the first one hands the
  activity to the engine's \<^verbatim>\<open>executeTurn\<close> and returns what that returns, and every
  later one rejects with the error whose message is
  \<^verbatim>\<open>This executeTurn() function is obsoleted. Please use a new one.\<close>, whatever the
  implementation of the API.
\<close>

theorem turn_handle_at_most_once:
  assumes "fst (snd (turnGenerator e it w)) = Inr h"
  shows "invocations api (a # as) (h, s) =
           (fst (api a s) # replicate (length as) (Inl Obsoleted),
            (h\<lparr>obsoleted := True\<rparr>, snd (api a s)))
         \<and> message Obsoleted
             = Some ''This executeTurn() function is obsoleted. Please use a new one.''"
proof -
  from assms have h: "h = createExecuteTurn"
    by (auto simp: turnGenerator_def split: prod.splits option.splits)
  have first: "executeTurnFunction api a (h, s)
                 = (fst (api a s), (h\<lparr>obsoleted := True\<rparr>, snd (api a s)))"
    by (simp add: h executeTurnFunction_def createExecuteTurn_def split: prod.splits)
  show ?thesis
    by (simp add: first invocations_obsoleted)
qed

theorem turn_handle_at_most_once_witness:
  "fst (snd (turnGenerator (test_env Rest three_hops) (StartNewConversation True) new_engine))
     = Inr createExecuteTurn
   \<and> fst (invocations engine_executeTurn [message_activity ''Morning.'', message_activity ''Again'']
        (createExecuteTurn, new_engine))
     = [Inr (ExecuteTurn (message_activity ''Morning.'')), Inl Obsoleted]"
proof -
  have p: "fst (snd (turnGenerator (test_env Rest three_hops) (StartNewConversation True) new_engine))
             = Inr createExecuteTurn"
    by code_simp
  from turn_handle_at_most_once [OF p, of engine_executeTurn "message_activity ''Morning.''"
      "[message_activity ''Again'']" new_engine]
  show ?thesis using p by (simp add: engine_executeTurn_def)
qed

text \<open>
  Claim C10. The flag is set before the API's \<^verbatim>\<open>executeTurn\<close> is awaited: when the
  first invocation of a fresh handle fails because \<^verbatim>\<open>executeTurn\<close> rejects, the
  invocation rejects with that error and has produced no stream, yet the handle is
  used up: every later invocation, in whatever state, rejects with the obsoletion
  error and leaves the API untouched. With the engine above \<^verbatim>\<open>executeTurn\<close> itself
  never rejects (a failing request phase shows when the stream is pulled); there too
  the invocation uses the handle up, before anything is requested.
\<close>

theorem failed_first_invocation_consumes_handle:
  assumes "fst (api a w) = Inl err"
  shows "executeTurnFunction api a (createExecuteTurn, w)
           = (Inl err, (\<lparr>obsoleted = True\<rparr>, snd (api a w)))
         \<and> (\<forall>b v. executeTurnFunction api b (\<lparr>obsoleted = True\<rparr>, v)
                    = (Inl Obsoleted, (\<lparr>obsoleted = True\<rparr>, v)))
         \<and> (\<forall>b v. executeTurnFunction engine_executeTurn b (createExecuteTurn, v)
                    = (Inr (ExecuteTurn b), (\<lparr>obsoleted = True\<rparr>, v)))"
  using assms
  by (cases "api a w")
     (simp add: executeTurnFunction_def createExecuteTurn_def engine_executeTurn_def)

theorem failed_first_invocation_consumes_handle_witness:
  "executeTurnFunction (\<lambda>a w. (Inl FetchFailed :: error + engine_iterator, w))
       (message_activity ''Morning.'') (createExecuteTurn, new_engine)
     = (Inl FetchFailed, (\<lparr>obsoleted = True\<rparr>, new_engine))
   \<and> executeTurnFunction (\<lambda>a w. (Inl FetchFailed :: error + engine_iterator, w))
       (message_activity ''Morning.'') (\<lparr>obsoleted = True\<rparr>, new_engine)
     = (Inl Obsoleted, (\<lparr>obsoleted = True\<rparr>, new_engine))
   \<and> fst (snd (turnGenerator (test_env Rest (\<lambda>n req. status_response 404))
        (ExecuteTurn (message_activity ''Morning.''))
        (new_engine\<lparr>conversationId := Some ''c-00001''\<rparr>)))
     = Inl (ServerReturned 404)"
proof -
  have stream: "fst (snd (turnGenerator (test_env Rest (\<lambda>n req. status_response 404))
        (ExecuteTurn (message_activity ''Morning.''))
        (new_engine\<lparr>conversationId := Some ''c-00001''\<rparr>)))
     = Inl (ServerReturned 404)"
    by code_simp
  from failed_first_invocation_consumes_handle
    [of "\<lambda>a w. (Inl FetchFailed :: error + engine_iterator, w)"
        "message_activity ''Morning.''" new_engine FetchFailed]
  show ?thesis using stream by simp
qed

section \<open>Usage errors of the engine\<close>

text \<open>
  Claim C3. On an engine whose conversation id is unset (or empty), calling
  \<^verbatim>\<open>executeTurn(activity)\<close> returns an iterator and does nothing else; the iterator
  fails at its first pull with the error whose message is
  \<^verbatim>\<open>startNewConversation() must be called before executeTurn().\<close>: it yields
  nothing, and the state is untouched, so the strategy's \<^verbatim>\<open>prepareExecuteTurn\<close>
  has not been consulted and no HTTP request issued.
\<close>

theorem executeTurn_before_startNewConversation:
  assumes "\<not> truthy (conversationId w)"
  shows "engine_executeTurn act w = (Inr (ExecuteTurn act), w)
         \<and> runIterator e (ExecuteTurn act) w = ([], Some StartNotCalled, w)
         \<and> message StartNotCalled
             = Some ''startNewConversation() must be called before executeTurn().''"
  using assms by (simp add: engine_executeTurn_def runIterator_def executeTurn_def)

theorem executeTurn_before_startNewConversation_witness:
  "conversationId new_engine = None
   \<and> runIterator (test_env Rest three_hops) (ExecuteTurn (message_activity ''Morning.'')) new_engine
       = ([], Some StartNotCalled, new_engine)"
  using executeTurn_before_startNewConversation
    [where w = new_engine and e = "test_env Rest three_hops"
       and act = "message_activity ''Morning.''"]
  by (simp add: new_engine_def truthy_def)

section \<open>The retried request phase\<close>

lemma restInput_retry:
  assumes "\<forall>req. transport_failure (server e (n0 + j) req)" and "retryable_state n0 w0 j s"
  shows "\<exists>err s'. restInput e base hs b wb s = (Inl err, s') \<and> \<not> onFailedAttempt s'
           \<and> retryable_state n0 w0 (Suc j) s'"
proof -
  obtain w cur where s: "s = (w, cur)" by (cases s)
  let ?req = "restRequest base hs b wb (conversationId w)"
  have tf: "transport_failure (server e (length (requests w)) ?req)"
    using assms s by (simp add: retryable_state_def)
  show ?thesis
    using tf assms(2) s
    by (cases "server e (length (requests w)) ?req")
       (auto simp: retryable_state_def restInput_def fetch_def transport_failure_def
          restOutcome_def ok_def onFailedAttempt_def split: option.splits)
qed

lemma sseInput_retry:
  assumes "\<forall>req. transport_failure (server e (n0 + j) req)" and "retryable_state n0 w0 j s"
  shows "\<exists>err s'. sseInput e base hs b s = (Inl err, s') \<and> \<not> onFailedAttempt s'
           \<and> retryable_state n0 w0 (Suc j) s'"
proof -
  obtain w cur where s: "s = (w, cur)" by (cases s)
  let ?req = "sseRequest base hs b (conversationId w)"
  have tf: "transport_failure (server e (length (requests w)) ?req)"
    using assms s by (simp add: retryable_state_def)
  show ?thesis
    using tf assms(2) s
    by (cases "server e (length (requests w)) ?req")
       (auto simp: retryable_state_def sseInput_def fetch_def transport_failure_def
          sseOutcome_def ok_def onFailedAttempt_def split: option.splits)
qed



lemma retryable_state_0: "retryable_state (length (requests w)) w 0 (w, None)"
  by (simp add: retryable_state_def)

lemma request_phase_exhaust:
  assumes step: "\<And>j s. \<forall>req. transport_failure (server e (n0 + j) req) \<Longrightarrow> retryable_state n0 w0 j s
             \<Longrightarrow> \<exists>err s'. input s = (Inl err, s') \<and> \<not> onFailedAttempt s' \<and> retryable_state n0 w0 (Suc j) s'"
      and fails: "\<forall>j<5. \<forall>req. transport_failure (server e (n0 + j) req)"
      and start: "retryable_state n0 w0 0 s"
  shows "\<exists>err s'. pRetry input onFailedAttempt main RETRY_COUNT [] s = (Inl err, s')
           \<and> retryable_state n0 w0 5 s'"
proof -
  have "\<exists>errs' s'. pRetry input onFailedAttempt main 4 [] s = (Inl (main errs'), s')
           \<and> retryable_state n0 w0 (Suc 4) s'"
  proof (rule pRetry_exhaust[where P = "retryable_state n0 w0"])
    fix j s assume j: "j \<le> 4" and st: "retryable_state n0 w0 j s"
    from j fails have "\<forall>req. transport_failure (server e (n0 + j) req)" by auto
    from step[OF this st]
    show "\<exists>err s'. input s = (Inl err, s') \<and> \<not> onFailedAttempt s' \<and> retryable_state n0 w0 (Suc j) s'" .
  next
    show "retryable_state n0 w0 0 s" by (rule start)
  qed
  then show ?thesis by (auto simp: RETRY_COUNT_def)
qed


lemma report_requests [simp]: "requests (report e err w) = requests w"
  by (simp add: report_def)

lemma rest_hop_exhaust:
  assumes "\<forall>j<5. \<forall>req. transport_failure (server e (length (requests w) + j) req)"
      and "numTurn < MAX_TURN"
  shows "\<exists>err w'. postWithREST_loop e base headers body numTurn withBody w = ([], Some err, w')
           \<and> length (requests w') = length (requests w) + 5"
proof -
  from request_phase_exhaust[where input = "restInput e base headers body withBody" and ?w0.0 = w,
      OF restInput_retry assms(1) retryable_state_0]
  obtain err s' where
    "pRetry (restInput e base headers body withBody) onFailedAttempt (mainError e) RETRY_COUNT []
       (w, None) = (Inl err, s')"
    "retryable_state (length (requests w)) w 5 s'" by blast
  then show ?thesis using assms(2)
    by (cases s') (auto simp: postWithREST_loop.simps[of _ _ _ _ numTurn] retryable_state_def)
qed

lemma sse_exhaust:
  assumes "\<forall>j<5. \<forall>req. transport_failure (server e (length (requests w) + j) req)"
  shows "\<exists>err w'. postWithServerSentEvents e base headers body w = ([], Some err, w')
           \<and> length (requests w') = length (requests w) + 5"
proof -
  from request_phase_exhaust[where input = "sseInput e base headers body" and ?w0.0 = w,
      OF sseInput_retry assms retryable_state_0]
  obtain err s' where
    "pRetry (sseInput e base headers body) onFailedAttempt (mainError e) RETRY_COUNT [] (w, None)
       = (Inl err, s')"
    "retryable_state (length (requests w)) w 5 s'" by blast
  then show ?thesis
    by (cases s') (auto simp: postWithServerSentEvents_def retryable_state_def)
qed

text \<open>
  Claim C4. When each of the five HTTP attempts that follow fails at the transport
  level (the fetch rejects, or the response has a status of 500 or more), the request
  phase makes exactly five attempts, \<open>RETRY_COUNT + 1\<close>, and the turn fails without
  yielding an activity. This holds for the first request of a turn, with either
  transport, and for the request of any iteration of the REST loop.
\<close>

theorem transport_failures_five_attempts:
  assumes "\<forall>j<5. \<forall>req. transport_failure (server e (length (requests w) + j) req)"
  shows "(\<exists>err w'. post e base body headers transport w = ([], Some err, w')
            \<and> length (requests w') = length (requests w) + (RETRY_COUNT + 1))
         \<and> (numTurn < MAX_TURN \<longrightarrow>
              (\<exists>err w'. postWithREST_loop e base headers body numTurn withBody w = ([], Some err, w')
                 \<and> length (requests w') = length (requests w) + (RETRY_COUNT + 1)))"
  using rest_hop_exhaust[OF assms, where numTurn = 0 and base = base and headers = headers
          and body = body and withBody = True]
        rest_hop_exhaust[OF assms, where numTurn = numTurn and base = base and headers = headers
          and body = body and withBody = withBody]
        sse_exhaust[OF assms, where base = base and headers = headers and body = body]
  by (simp add: post_def postWithREST_def MAX_TURN_def RETRY_COUNT_def)

theorem transport_failures_five_attempts_witness:
  "\<exists>err w'. post (test_env Rest (\<lambda>n req. status_response 503)) test_baseURL [] None (Some Rest) new_engine
      = ([], Some err, w') \<and> length (requests w') = 5"
  using transport_failures_five_attempts
    [where w = new_engine and e = "test_env Rest (\<lambda>n req. status_response 503)"
       and base = test_baseURL and body = "[]" and headers = None and transport = "Some Rest"
       and numTurn = 1000 and withBody = True]
  by (simp add: transport_failure_def status_response_def test_env_def new_engine_def RETRY_COUNT_def)

lemma service_unavailable_run:
  "post (test_env Rest (\<lambda>n req. status_response 503)) test_baseURL [] None (Some Rest) new_engine
     = ([], Some (ServerReturned 503),
        new_engine\<lparr>requests := replicate 5 (restRequest test_baseURL None [] True None)\<rparr>)"
  by code_simp





section \<open>The requests of a turn\<close>

text \<open>A request phase issues the same request once per attempt, at least once and at most
  \<open>retries + 1\<close> times, and changes nothing else of the state.\<close>

lemma phase_issues:
  assumes step: "\<And>w cur. \<exists>res cur'. input (w, cur)
                   = (res, (w\<lparr>requests := requests w @ [mk (conversationId w)]\<rparr>, cur'))"
  shows "\<exists>k res cur'. 1 \<le> k \<and> k \<le> Suc r \<and> pRetry input onF main r errs (w, cur)
           = (res, (w\<lparr>requests := requests w @ replicate k (mk (conversationId w))\<rparr>, cur'))"
proof (induction r arbitrary: errs w cur)
  case 0
  from step[of w cur] obtain res cur' where
    "input (w, cur) = (res, (w\<lparr>requests := requests w @ [mk (conversationId w)]\<rparr>, cur'))" by blast
  then have "\<exists>res cur'. pRetry input onF main 0 errs (w, cur)
           = (res, (w\<lparr>requests := requests w @ replicate 1 (mk (conversationId w))\<rparr>, cur'))"
    by (cases res) (auto simp: pRetry.simps)
  then show ?case by (metis le_refl One_nat_def)
next
  case (Suc r)
  let ?w1 = "w\<lparr>requests := requests w @ [mk (conversationId w)]\<rparr>"
  from step[of w cur] obtain res cur' where
    st: "input (w, cur) = (res, (?w1, cur'))" by blast
  show ?case
  proof (cases "\<exists>err. res = Inl err \<and> \<not> onF (?w1, cur')")
    case False
    with st have "\<exists>res. pRetry input onF main (Suc r) errs (w, cur)
           = (res, (w\<lparr>requests := requests w @ replicate 1 (mk (conversationId w))\<rparr>, cur'))"
      by (cases res) (auto simp: pRetry.simps[of _ _ _ "Suc r"])
    then show ?thesis by (metis One_nat_def le_refl le_SucI Suc_le_mono le0)
  next
    case True
    then obtain err where e: "res = Inl err" "\<not> onF (?w1, cur')" by blast
    from Suc.IH[of "errs @ [err]" ?w1 cur'] obtain k res' cur'' where
      k: "1 \<le> k" "k \<le> Suc r" and
      "pRetry input onF main r (errs @ [err]) (?w1, cur')
         = (res', (?w1\<lparr>requests := requests ?w1 @ replicate k (mk (conversationId ?w1))\<rparr>, cur''))"
      by blast
    then have "pRetry input onF main (Suc r) errs (w, cur)
         = (res', (w\<lparr>requests := requests w @ replicate (Suc k) (mk (conversationId w))\<rparr>, cur''))"
      using st e by (simp add: pRetry.simps[of _ _ _ "Suc r"])
    with k show ?thesis by (metis Suc_le_mono le_SucI)
  qed
qed

lemma restInput_step:
  "\<exists>res cur'. restInput e base hs b wb (w, cur)
     = (res, (w\<lparr>requests := requests w @ [restRequest base hs b wb (conversationId w)]\<rparr>, cur'))"
  by (cases "server e (length (requests w)) (restRequest base hs b wb (conversationId w))")
     (simp_all add: restInput_def fetch_def)

lemma sseInput_step:
  "\<exists>res cur'. sseInput e base hs b (w, cur)
     = (res, (w\<lparr>requests := requests w @ [sseRequest base hs b (conversationId w)]\<rparr>, cur'))"
  by (cases "server e (length (requests w)) (sseRequest base hs b (conversationId w))")
     (simp_all add: sseInput_def fetch_def)

lemma rest_loop_requests:
  "\<exists>new. requests (snd (snd (postWithREST_loop e base hs b n False w))) = requests w @ new
     \<and> (\<forall>r\<in>set new. \<exists>cid. r = restRequest base hs b False cid)
     \<and> length new \<le> (RETRY_COUNT + 1) * (MAX_TURN - n)"
proof (induction "MAX_TURN - n" arbitrary: n w)
  case 0
  then show ?case by (simp add: postWithREST_loop.simps[of _ _ _ _ n])
next
  case (Suc d)
  then have n: "n < MAX_TURN" and d: "d = MAX_TURN - Suc n" by auto
  let ?req = "restRequest base hs b False (conversationId w)"
  from phase_issues[where input = "restInput e base hs b False" and mk = "restRequest base hs b False"
      and r = RETRY_COUNT and onF = onFailedAttempt and main = "mainError e" and errs = "[]"
      and w = w and cur = None, OF restInput_step]
  obtain k res cur' where k: "1 \<le> k" "k \<le> Suc RETRY_COUNT"
    and ph: "pRetry (restInput e base hs b False) onFailedAttempt (mainError e) RETRY_COUNT [] (w, None)
       = (res, (w\<lparr>requests := requests w @ replicate k ?req\<rparr>, cur'))" by blast
  let ?w1 = "w\<lparr>requests := requests w @ replicate k ?req\<rparr>"
  show ?case
  proof (cases res)
    case (Inl err)
    with ph n have "requests (snd (snd (postWithREST_loop e base hs b n False w)))
        = requests w @ replicate k ?req"
      by (simp add: postWithREST_loop.simps[of _ _ _ _ n])
    moreover have "length (replicate k ?req) \<le> (RETRY_COUNT + 1) * (MAX_TURN - n)"
      using k n by (simp add: RETRY_COUNT_def MAX_TURN_def)
    ultimately show ?thesis by (intro exI[of _ "replicate k ?req"]) auto
  next
    case (Inr botResponse)
    let ?w2 = "if truthy (bot_conversationId botResponse)
               then ?w1\<lparr>conversationId := bot_conversationId botResponse\<rparr> else ?w1"
    have w2: "requests ?w2 = requests w @ replicate k ?req" by simp
    show ?thesis
    proof (cases "action botResponse \<noteq> ''continue''")
      case True
      with ph n Inr have "requests (snd (snd (postWithREST_loop e base hs b n False w)))
          = requests w @ replicate k ?req"
        by (simp add: postWithREST_loop.simps[of _ _ _ _ n] Let_def)
      moreover have "length (replicate k ?req) \<le> (RETRY_COUNT + 1) * (MAX_TURN - n)"
        using k n by (simp add: RETRY_COUNT_def MAX_TURN_def)
      ultimately show ?thesis by (intro exI[of _ "replicate k ?req"]) auto
    next
      case False
      from Suc.hyps(1)[OF d, of ?w2] obtain new where
        new: "requests (snd (snd (postWithREST_loop e base hs b (Suc n) False ?w2))) = requests ?w2 @ new"
          "\<forall>r\<in>set new. \<exists>cid. r = restRequest base hs b False cid"
          "length new \<le> (RETRY_COUNT + 1) * (MAX_TURN - Suc n)" by blast
      from ph n Inr False have "snd (snd (postWithREST_loop e base hs b n False w))
          = snd (snd (postWithREST_loop e base hs b (Suc n) False ?w2))"
        by (simp add: postWithREST_loop.simps[of _ _ _ _ n] Let_def split: prod.splits)
      with new(1) w2 have "requests (snd (snd (postWithREST_loop e base hs b n False w)))
          = requests w @ (replicate k ?req @ new)" by simp
      moreover have "length (replicate k ?req @ new) \<le> (RETRY_COUNT + 1) * (MAX_TURN - n)"
      proof -
        have "MAX_TURN - n = Suc (MAX_TURN - Suc n)" using n by simp
        then show ?thesis using k new(3) by simp
      qed
      moreover have "\<forall>r\<in>set (replicate k ?req @ new). \<exists>cid. r = restRequest base hs b False cid"
        using new(2) by auto
      ultimately show ?thesis by blast
    qed
  qed
qed

lemma rest_phase_single:
  assumes "\<not> transport_failure
             (server e (length (requests w)) (restRequest base hs b wb (conversationId w)))"
  shows "\<exists>res cur'. pRetry (restInput e base hs b wb) onFailedAttempt main r errs (w, None)
           = (res, (w\<lparr>requests := requests w @ [restRequest base hs b wb (conversationId w)]\<rparr>, cur'))"
proof (cases "server e (length (requests w)) (restRequest base hs b wb (conversationId w))")
  case NetworkError
  with assms show ?thesis by (simp add: transport_failure_def)
next
  case (Response x)
  with assms have "status x < 500" by (simp add: transport_failure_def)
  with Response show ?thesis
    by (cases "restOutcome x")
       (simp_all add: pRetry.simps[of _ _ _ r] restInput_def fetch_def onFailedAttempt_def)
qed

lemma rest_turn_requests:
  "\<exists>k new. 1 \<le> k \<and> k \<le> RETRY_COUNT + 1
     \<and> requests (snd (snd (postWithREST e base hs b w)))
         = requests w @ replicate k (restRequest base hs b True (conversationId w)) @ new
     \<and> (\<forall>r\<in>set new. \<exists>cid. r = restRequest base hs b False cid)
     \<and> length new \<le> (RETRY_COUNT + 1) * (MAX_TURN - 1)
     \<and> (\<not> transport_failure
            (server e (length (requests w)) (restRequest base hs b True (conversationId w)))
          \<longrightarrow> k = 1)"
proof -
  let ?req = "restRequest base hs b True (conversationId w)"
  from phase_issues[where input = "restInput e base hs b True" and mk = "restRequest base hs b True"
      and r = RETRY_COUNT and onF = onFailedAttempt and main = "mainError e" and errs = "[]"
      and w = w and cur = None, OF restInput_step]
  obtain k res cur' where k: "1 \<le> k" "k \<le> Suc RETRY_COUNT"
    and ph: "pRetry (restInput e base hs b True) onFailedAttempt (mainError e) RETRY_COUNT [] (w, None)
       = (res, (w\<lparr>requests := requests w @ replicate k ?req\<rparr>, cur'))" by blast
  let ?w1 = "w\<lparr>requests := requests w @ replicate k ?req\<rparr>"
  have single: "\<not> transport_failure (server e (length (requests w)) ?req) \<longrightarrow> k = 1"
  proof
    assume "\<not> transport_failure (server e (length (requests w)) ?req)"
    from rest_phase_single[OF this, of "mainError e" RETRY_COUNT "[]"] ph
    have "w\<lparr>requests := requests w @ replicate k ?req\<rparr> = w\<lparr>requests := requests w @ [?req]\<rparr>"
      by auto
    then have "requests (w\<lparr>requests := requests w @ replicate k ?req\<rparr>)
                 = requests (w\<lparr>requests := requests w @ [?req]\<rparr>)"
      by (rule arg_cong)
    then have "length (replicate k ?req) = length [?req]" by simp
    then show "k = 1" by simp
  qed
  have n: "0 < MAX_TURN" by (simp add: MAX_TURN_def)
  show ?thesis
  proof (cases "\<exists>botResponse. res = Inr botResponse \<and> action botResponse = ''continue''")
    case False
    with ph n have "requests (snd (snd (postWithREST e base hs b w))) = requests w @ replicate k ?req @ []"
      by (cases res)
         (auto simp: postWithREST_def postWithREST_loop.simps[of _ _ _ _ 0] Let_def)
    with k single show ?thesis by (intro exI[of _ k] exI[of _ "[]"]) auto
  next
    case True
    then obtain botResponse where br: "res = Inr botResponse" "action botResponse = ''continue''"
      by blast
    let ?w2 = "if truthy (bot_conversationId botResponse)
               then ?w1\<lparr>conversationId := bot_conversationId botResponse\<rparr> else ?w1"
    have w2: "requests ?w2 = requests w @ replicate k ?req" by simp
    from rest_loop_requests[of e base hs b "Suc 0" ?w2] obtain new where
      new: "requests (snd (snd (postWithREST_loop e base hs b (Suc 0) False ?w2))) = requests ?w2 @ new"
        "\<forall>r\<in>set new. \<exists>cid. r = restRequest base hs b False cid"
        "length new \<le> (RETRY_COUNT + 1) * (MAX_TURN - Suc 0)" by blast
    from ph n br have "snd (snd (postWithREST e base hs b w))
        = snd (snd (postWithREST_loop e base hs b (Suc 0) False ?w2))"
      by (simp add: postWithREST_def postWithREST_loop.simps[of _ _ _ _ 0] Let_def split: prod.splits)
    with new(1) w2 have "requests (snd (snd (postWithREST e base hs b w)))
        = requests w @ replicate k ?req @ new" by simp
    with k single new(2,3) show ?thesis by (intro exI[of _ k] exI[of _ new]) auto
  qed
qed

lemma transform_requests_aux:
  "transform evs w = (ys, r, w') \<Longrightarrow> requests w' = requests w"
proof (induction evs arbitrary: w ys r w')
  case Nil
  then show ?case by simp
next
  case (Cons ev evs)
  then show ?case
    by (auto split: if_splits option.splits conversation_account.splits prod.splits)
qed

lemma transform_requests [simp]: "requests (snd (snd (transform evs w))) = requests w"
  by (cases "transform evs w") (auto dest: transform_requests_aux)

lemma sse_turn_requests:
  "\<exists>k. 1 \<le> k \<and> k \<le> RETRY_COUNT + 1
     \<and> requests (snd (snd (postWithServerSentEvents e base hs b w)))
         = requests w @ replicate k (sseRequest base hs b (conversationId w))"
proof -
  let ?req = "sseRequest base hs b (conversationId w)"
  from phase_issues[where input = "sseInput e base hs b" and mk = "sseRequest base hs b"
      and r = RETRY_COUNT and onF = onFailedAttempt and main = "mainError e" and errs = "[]"
      and w = w and cur = None, OF sseInput_step]
  obtain k res cur' where k: "1 \<le> k" "k \<le> Suc RETRY_COUNT"
    and ph: "pRetry (sseInput e base hs b) onFailedAttempt (mainError e) RETRY_COUNT [] (w, None)
       = (res, (w\<lparr>requests := requests w @ replicate k ?req\<rparr>, cur'))" by blast
  from ph have "requests (snd (snd (postWithServerSentEvents e base hs b w)))
         = requests w @ replicate k ?req"
    by (cases res) (simp_all add: postWithServerSentEvents_def)
  with k show ?thesis by auto
qed

section \<open>Request URLs\<close>

lemma resolve_search: "search_get (resolveURLWithQueryAndHash rel base) = search_get base"
  by (simp add: resolveURLWithQueryAndHash_def search_get_def search_set_def Let_def split: option.splits)

lemma resolve_hash: "hash_get (resolveURLWithQueryAndHash rel base) = hash_get base"
  by (simp add: resolveURLWithQueryAndHash_def hash_get_def hash_set_def search_set_def Let_def
        split: option.splits)

lemma resolve_path:
  "u_path (resolveURLWithQueryAndHash rel base) = u_path (URL_ctor rel base)
   \<and> u_host (resolveURLWithQueryAndHash rel base) = u_host (URL_ctor rel base)
   \<and> u_scheme (resolveURLWithQueryAndHash rel base) = u_scheme (URL_ctor rel base)"
  by (simp add: resolveURLWithQueryAndHash_def hash_set_def search_set_def Let_def)

lemma req_url_restRequest [simp]:
  "req_url (restRequest base hs b wb cid)
     = resolveURLWithQueryAndHash (''conversations/'' @ id_or_empty cid) base"
  by (simp add: restRequest_def Let_def)

lemma req_url_sseRequest [simp]:
  "req_url (sseRequest base hs b cid)
     = resolveURLWithQueryAndHash (''conversations/'' @ id_or_empty cid) base"
  by (simp add: sseRequest_def)

lemma post_requests:
  "\<exists>new. requests (snd (snd (post e base body headers transport w))) = requests w @ new
     \<and> new \<noteq> []
     \<and> req_url (hd new)
         = resolveURLWithQueryAndHash (''conversations/'' @ id_or_empty (conversationId w)) base
     \<and> (\<forall>r\<in>set new. \<exists>cid. req_url r
         = resolveURLWithQueryAndHash (''conversations/'' @ id_or_empty cid) base)"
proof (cases "transport = Some ServerSentEvents")
  case True
  from sse_turn_requests[of e base headers body w] obtain k where
    k: "1 \<le> k"
    "requests (snd (snd (postWithServerSentEvents e base headers body w)))
       = requests w @ replicate k (sseRequest base headers body (conversationId w))" by blast
  let ?new = "replicate k (sseRequest base headers body (conversationId w))"
  have "?new \<noteq> []" using k(1) by auto
  moreover have "req_url (hd ?new)
      = resolveURLWithQueryAndHash (''conversations/'' @ id_or_empty (conversationId w)) base"
    using k(1) by (cases k) simp_all
  moreover have "\<forall>r\<in>set ?new. \<exists>cid. req_url r
         = resolveURLWithQueryAndHash (''conversations/'' @ id_or_empty cid) base"
    by auto
  moreover have "requests (snd (snd (post e base body headers transport w))) = requests w @ ?new"
    using True k(2) by (simp add: post_def)
  ultimately show ?thesis by blast
next
  case False
  from rest_turn_requests[of e base headers body w] obtain k new where
    k: "1 \<le> k"
    "requests (snd (snd (postWithREST e base headers body w)))
       = requests w @ replicate k (restRequest base headers body True (conversationId w)) @ new"
    "\<forall>r\<in>set new. \<exists>cid. r = restRequest base headers body False cid" by blast
  let ?new = "replicate k (restRequest base headers body True (conversationId w)) @ new"
  have "?new \<noteq> []" using k(1) by auto
  moreover have "req_url (hd ?new)
      = resolveURLWithQueryAndHash (''conversations/'' @ id_or_empty (conversationId w)) base"
    using k(1) by (cases k) simp_all
  moreover have "\<forall>r\<in>set ?new. \<exists>cid. req_url r
         = resolveURLWithQueryAndHash (''conversations/'' @ id_or_empty cid) base"
  proof
    fix r assume "r \<in> set ?new"
    then consider "r = restRequest base headers body True (conversationId w)" | "r \<in> set new"
      by auto
    then show "\<exists>cid. req_url r
         = resolveURLWithQueryAndHash (''conversations/'' @ id_or_empty cid) base"
    proof cases
      case 1
      then show ?thesis using req_url_restRequest by blast
    next
      case 2
      with k(3) obtain cid where "r = restRequest base headers body False cid" by blast
      then show ?thesis using req_url_restRequest by blast
    qed
  qed
  moreover have "requests (snd (snd (post e base body headers transport w))) = requests w @ ?new"
    using False k(2) by (simp add: post_def)
  ultimately show ?thesis by blast
qed

text \<open>
  Claim C6. The URL of every HTTP request of a turn (the first request and the
  continuation requests, with either transport) is the path
  \<^verbatim>\<open>conversations/\<close> followed by a conversation id or nothing, resolved against the
  strategy's base URL, with the query and the fragment then overwritten by the base
  URL's: its \<^verbatim>\<open>search\<close> and \<^verbatim>\<open>hash\<close> are those of the base URL, and its path
  is the resolved one. The first request of the turn, and the request of each attempt
  of either request phase, uses the engine's conversation id at that moment, or the
  empty string when there is none.
\<close>

theorem request_urls:
  "(\<forall>r \<in> set (drop (length (requests w)) (requests (snd (snd (post e base body headers transport w))))).
      (\<exists>cid. req_url r = resolveURLWithQueryAndHash (''conversations/'' @ id_or_empty cid) base)
      \<and> search_get (req_url r) = search_get base \<and> hash_get (req_url r) = hash_get base)
   \<and> req_url (requests (snd (snd (post e base body headers transport w))) ! length (requests w))
       = resolveURLWithQueryAndHash (''conversations/'' @ id_or_empty (conversationId w)) base
   \<and> map req_url (requests (fst (snd (restInput e base headers body withBody (w, cur)))))
       = map req_url (requests w)
         @ [resolveURLWithQueryAndHash (''conversations/'' @ id_or_empty (conversationId w)) base]
   \<and> map req_url (requests (fst (snd (sseInput e base headers body (w, cur)))))
       = map req_url (requests w)
         @ [resolveURLWithQueryAndHash (''conversations/'' @ id_or_empty (conversationId w)) base]
   \<and> search_get (resolveURLWithQueryAndHash rel base) = search_get base
   \<and> hash_get (resolveURLWithQueryAndHash rel base) = hash_get base
   \<and> u_path (resolveURLWithQueryAndHash rel base) = u_path (URL_ctor rel base)"
proof -
  from post_requests[of e base body headers transport w] obtain new where
    new: "requests (snd (snd (post e base body headers transport w))) = requests w @ new"
      "new \<noteq> []"
      "req_url (hd new)
         = resolveURLWithQueryAndHash (''conversations/'' @ id_or_empty (conversationId w)) base"
      "\<forall>r\<in>set new. \<exists>cid. req_url r
         = resolveURLWithQueryAndHash (''conversations/'' @ id_or_empty cid) base" by blast
  have a: "\<forall>r \<in> set (drop (length (requests w)) (requests (snd (snd (post e base body headers transport w))))).
      (\<exists>cid. req_url r = resolveURLWithQueryAndHash (''conversations/'' @ id_or_empty cid) base)
      \<and> search_get (req_url r) = search_get base \<and> hash_get (req_url r) = hash_get base"
  proof
    fix r assume "r \<in> set (drop (length (requests w)) (requests (snd (snd (post e base body headers transport w)))))"
    with new(1) have "r \<in> set new" by simp
    with new(4) obtain cid where
      u: "req_url r = resolveURLWithQueryAndHash (''conversations/'' @ id_or_empty cid) base" by blast
    then show "(\<exists>cid. req_url r = resolveURLWithQueryAndHash (''conversations/'' @ id_or_empty cid) base)
      \<and> search_get (req_url r) = search_get base \<and> hash_get (req_url r) = hash_get base"
      using resolve_search resolve_hash by metis
  qed
  have b: "req_url (requests (snd (snd (post e base body headers transport w))) ! length (requests w))
       = resolveURLWithQueryAndHash (''conversations/'' @ id_or_empty (conversationId w)) base"
    using new(1,2,3) by (simp add: nth_append hd_conv_nth)
  obtain res cur' where "restInput e base headers body withBody (w, cur)
     = (res, (w\<lparr>requests := requests w @ [restRequest base headers body withBody (conversationId w)]\<rparr>, cur'))"
    using restInput_step by blast
  then have c: "map req_url (requests (fst (snd (restInput e base headers body withBody (w, cur)))))
       = map req_url (requests w)
         @ [resolveURLWithQueryAndHash (''conversations/'' @ id_or_empty (conversationId w)) base]"
    by simp
  obtain res cur' where "sseInput e base headers body (w, cur)
     = (res, (w\<lparr>requests := requests w @ [sseRequest base headers body (conversationId w)]\<rparr>, cur'))"
    using sseInput_step by blast
  then have d: "map req_url (requests (fst (snd (sseInput e base headers body (w, cur)))))
       = map req_url (requests w)
         @ [resolveURLWithQueryAndHash (''conversations/'' @ id_or_empty (conversationId w)) base]"
    by simp
  show ?thesis using a b c d resolve_search resolve_hash resolve_path by blast
qed

theorem request_urls_witness:
  "map (\<lambda>r. href (req_url r))
      (requests (snd (snd (startNewConversation (test_env Rest three_hops) True new_engine))))
     = [''http://test/conversations/?api=start#1'',
        ''http://test/conversations/c-00001?api=start#1'',
        ''http://test/conversations/c-00001?api=start#1'']
   \<and> list_all (\<lambda>r. search_get (req_url r) = ''?api=start'' \<and> hash_get (req_url r) = ''#1'')
       (requests (snd (snd (post (test_env Rest three_hops) test_baseURL [] None (Some Rest) new_engine))))
   \<and> href (resolveURLWithQueryAndHash ''conversations/c-1''
         \<lparr>u_scheme = ''http'', u_host = ''host'', u_path = [[]],
          u_query = Some ''api=start'', u_fragment = Some ''1''\<rparr>)
       = ''http://host/conversations/c-1?api=start#1''"
proof -
  note t = request_urls[where w = new_engine and e = "test_env Rest three_hops"
      and base = test_baseURL and body = "[]" and headers = None and transport = "Some Rest"]
  have n: "requests new_engine = []" by (simp add: new_engine_def)
  have s: "search_get test_baseURL = ''?api=start''" "hash_get test_baseURL = ''#1''"
    by (simp_all add: test_baseURL_def search_get_def hash_get_def)
  have a: "list_all (\<lambda>r. search_get (req_url r) = ''?api=start'' \<and> hash_get (req_url r) = ''#1'')
       (requests (snd (snd (post (test_env Rest three_hops) test_baseURL [] None (Some Rest) new_engine))))"
    using t by (simp add: n s list_all_iff)
  have b: "map (\<lambda>r. href (req_url r))
      (requests (snd (snd (startNewConversation (test_env Rest three_hops) True new_engine))))
     = [''http://test/conversations/?api=start#1'',
        ''http://test/conversations/c-00001?api=start#1'',
        ''http://test/conversations/c-00001?api=start#1'']"
    by code_simp
  have c: "href (resolveURLWithQueryAndHash ''conversations/c-1''
         \<lparr>u_scheme = ''http'', u_host = ''host'', u_path = [[]],
          u_query = Some ''api=start'', u_fragment = Some ''1''\<rparr>)
       = ''http://host/conversations/c-1?api=start#1''"
    by code_simp
  from a b c show ?thesis by blast
qed

section \<open>Request bodies in REST mode\<close>






section \<open>The ceiling of the REST loop\<close>

lemma rest_phase_success:
  assumes "server e (length (requests w)) (restRequest base hs b wb (conversationId w)) = Response x"
      and "restOutcome x = Inr botResponse"
  shows "pRetry (restInput e base hs b wb) onFailedAttempt main r errs (w, None)
           = (Inr botResponse,
              (w\<lparr>requests := requests w @ [restRequest base hs b wb (conversationId w)]\<rparr>, Some x))"
  using assms by (simp add: pRetry.simps[of _ _ _ r] restInput_def fetch_def)

lemma continue_loop_from:
  assumes srv: "\<forall>n req. n0 \<le> n \<longrightarrow> (\<exists>x. server e n req = Response x \<and> ok x
                  \<and> json x = Some (reply n) \<and> action (reply n) = ''continue'')"
  shows "n0 \<le> length (requests w) \<Longrightarrow> \<exists>w'. postWithREST_loop e base hs b n wb w
           = (concat (map (\<lambda>i. activities (reply i))
                 [length (requests w) ..< length (requests w) + (MAX_TURN - n)]), None, w')
           \<and> length (requests w') = length (requests w) + (MAX_TURN - n)"
proof (induction "MAX_TURN - n" arbitrary: n wb w)
  case 0
  then show ?case by (simp add: postWithREST_loop.simps[of _ _ _ _ n])
next
  case (Suc d)
  then have n: "n < MAX_TURN" and d: "d = MAX_TURN - Suc n" by auto
  let ?n0 = "length (requests w)"
  let ?req = "restRequest base hs b wb (conversationId w)"
  from srv Suc.prems obtain x where x: "server e ?n0 ?req = Response x" "ok x"
    "json x = Some (reply ?n0)" "action (reply ?n0) = ''continue''" by blast
  then have out: "restOutcome x = Inr (reply ?n0)" by (simp add: restOutcome_def)
  let ?w1 = "w\<lparr>requests := requests w @ [?req]\<rparr>"
  let ?w2 = "if truthy (bot_conversationId (reply ?n0))
             then ?w1\<lparr>conversationId := bot_conversationId (reply ?n0)\<rparr> else ?w1"
  have len2: "length (requests ?w2) = Suc ?n0" by simp
  have ge: "n0 \<le> length (requests ?w2)" using Suc.prems len2 by linarith
  from Suc.hyps(1)[OF d ge, of False] obtain w' where
    rest: "postWithREST_loop e base hs b (Suc n) False ?w2
       = (concat (map (\<lambda>i. activities (reply i))
             [length (requests ?w2) ..< length (requests ?w2) + (MAX_TURN - Suc n)]), None, w')"
      "length (requests w') = length (requests ?w2) + (MAX_TURN - Suc n)" by blast
  have unfold: "postWithREST_loop e base hs b n wb w
      = (activities (reply ?n0) @ concat (map (\<lambda>i. activities (reply i))
             [length (requests ?w2) ..< length (requests ?w2) + (MAX_TURN - Suc n)]), None, w')"
    using n x(4) rest(1)
    by (simp add: postWithREST_loop.simps[of _ _ _ _ n] rest_phase_success[OF x(1) out] Let_def)
  have m: "MAX_TURN - n = Suc (MAX_TURN - Suc n)" using n by simp
  have "[?n0 ..< ?n0 + (MAX_TURN - n)] = ?n0 # [Suc ?n0 ..< Suc ?n0 + (MAX_TURN - Suc n)]"
    unfolding m by (simp add: upt_conv_Cons)
  then have "concat (map (\<lambda>i. activities (reply i)) [?n0 ..< ?n0 + (MAX_TURN - n)])
      = activities (reply ?n0) @ concat (map (\<lambda>i. activities (reply i))
             [length (requests ?w2) ..< length (requests ?w2) + (MAX_TURN - Suc n)])"
    unfolding len2 by simp
  with unfold rest(2) len2 m show ?case by simp
qed

lemma always_continue_loop:
  assumes srv: "\<forall>n req. \<exists>x. server e n req = Response x \<and> ok x \<and> json x = Some (reply n)
                  \<and> action (reply n) = ''continue''"
  shows "\<exists>w'. postWithREST_loop e base hs b n wb w
           = (concat (map (\<lambda>i. activities (reply i))
                 [length (requests w) ..< length (requests w) + (MAX_TURN - n)]), None, w')
           \<and> length (requests w') = length (requests w) + (MAX_TURN - n)"
proof -
  from srv have "\<forall>n req. 0 \<le> n \<longrightarrow> (\<exists>x. server e n req = Response x \<and> ok x
                  \<and> json x = Some (reply n) \<and> action (reply n) = ''continue'')" by simp
  from continue_loop_from[OF this, of w base hs b n wb] show ?thesis by simp
qed

lemma no_failure_loop:
  assumes srv: "\<forall>n req. \<not> transport_failure (server e n req)"
  shows "length (requests (snd (snd (postWithREST_loop e base hs b n wb w))))
           \<le> length (requests w) + (MAX_TURN - n)"
proof (induction "MAX_TURN - n" arbitrary: n wb w)
  case 0
  then show ?case by (simp add: postWithREST_loop.simps[of _ _ _ _ n])
next
  case (Suc d)
  then have n: "n < MAX_TURN" and d: "d = MAX_TURN - Suc n" by auto
  let ?req = "restRequest base hs b wb (conversationId w)"
  let ?w1 = "w\<lparr>requests := requests w @ [?req]\<rparr>"
  from srv have "\<not> transport_failure (server e (length (requests w)) ?req)" by blast
  from rest_phase_single[OF this, of "mainError e" RETRY_COUNT "[]"]
  obtain res cur' where ph:
    "pRetry (restInput e base hs b wb) onFailedAttempt (mainError e) RETRY_COUNT [] (w, None)
       = (res, (?w1, cur'))" by blast
  show ?case
  proof (cases "\<exists>botResponse. res = Inr botResponse \<and> action botResponse = ''continue''")
    case False
    with ph n have "requests (snd (snd (postWithREST_loop e base hs b n wb w))) = requests ?w1"
      by (cases res) (auto simp: postWithREST_loop.simps[of _ _ _ _ n] Let_def)
    with n show ?thesis by simp
  next
    case True
    then obtain botResponse where br: "res = Inr botResponse" "action botResponse = ''continue''"
      by blast
    let ?w2 = "if truthy (bot_conversationId botResponse)
               then ?w1\<lparr>conversationId := bot_conversationId botResponse\<rparr> else ?w1"
    have len2: "length (requests ?w2) = Suc (length (requests w))" by simp
    from ph n br have "snd (snd (postWithREST_loop e base hs b n wb w))
        = snd (snd (postWithREST_loop e base hs b (Suc n) False ?w2))"
      by (simp add: postWithREST_loop.simps[of _ _ _ _ n] Let_def split: prod.splits)
    moreover from Suc.hyps(1)[OF d, of False ?w2]
    have "length (requests (snd (snd (postWithREST_loop e base hs b (Suc n) False ?w2))))
            \<le> length (requests ?w2) + (MAX_TURN - Suc n)" .
    ultimately show ?thesis using n len2 by simp
  qed
qed

lemma rest_phase_result:
  "pRetry (restInput e base hs b wb) onFailedAttempt main r errs s = (Inr br, s')
     \<Longrightarrow> \<exists>i req x. server e i req = Response x \<and> restOutcome x = Inr br"
proof (induction r arbitrary: errs s)
  case 0
  obtain w cur where s: "s = (w, cur)" by (cases s)
  from 0 show ?case unfolding s
    by (cases "server e (length (requests w)) (restRequest base hs b wb (conversationId w))")
       (auto simp: pRetry.simps[of _ _ _ 0] restInput_def fetch_def split: sum.splits if_splits)
next
  case (Suc r)
  obtain w cur where s: "s = (w, cur)" by (cases s)
  from Suc.prems Suc.IH show ?case unfolding s
    by (cases "server e (length (requests w)) (restRequest base hs b wb (conversationId w))")
       (auto simp: pRetry.simps[of _ _ _ "Suc r"] restInput_def fetch_def
             split: sum.splits if_splits)
qed

lemma rest_loop_responses:
  "\<exists>rs. length rs \<le> MAX_TURN - n
     \<and> fst (postWithREST_loop e base hs b n wb w) = concat (map activities rs)
     \<and> (\<forall>br\<in>set rs. \<exists>i req x. server e i req = Response x \<and> restOutcome x = Inr br)"
proof (induction "MAX_TURN - n" arbitrary: n wb w)
  case 0
  then have "fst (postWithREST_loop e base hs b n wb w) = concat (map activities [])"
    by (simp add: postWithREST_loop.simps[of _ _ _ _ n])
  then show ?case by (intro exI[of _ "[]"]) simp
next
  case (Suc d)
  then have n: "n < MAX_TURN" and d: "d = MAX_TURN - Suc n" by auto
  obtain res w1 cur where ph:
    "pRetry (restInput e base hs b wb) onFailedAttempt (mainError e) RETRY_COUNT [] (w, None)
       = (res, (w1, cur))"
    by (metis surj_pair)
  show ?case
  proof (cases res)
    case (Inl err)
    with ph n have "fst (postWithREST_loop e base hs b n wb w) = concat (map activities [])"
      by (simp add: postWithREST_loop.simps[of _ _ _ _ n])
    then show ?thesis by (intro exI[of _ "[]"]) simp
  next
    case (Inr br)
    from rest_phase_result[OF ph[unfolded Inr]]
    have src: "\<exists>i req x. server e i req = Response x \<and> restOutcome x = Inr br" .
    let ?w2 = "if truthy (bot_conversationId br)
               then w1\<lparr>conversationId := bot_conversationId br\<rparr> else w1"
    show ?thesis
    proof (cases "action br \<noteq> ''continue''")
      case True
      with ph n Inr have "fst (postWithREST_loop e base hs b n wb w) = concat (map activities [br])"
        by (simp add: postWithREST_loop.simps[of _ _ _ _ n] Let_def)
      moreover have "length [br] \<le> MAX_TURN - n" using n by simp
      ultimately show ?thesis using src by (intro exI[of _ "[br]"]) simp
    next
      case False
      from Suc.hyps(1)[OF d, of False ?w2] obtain rs where
        rs: "length rs \<le> MAX_TURN - Suc n"
          "fst (postWithREST_loop e base hs b (Suc n) False ?w2) = concat (map activities rs)"
          "\<forall>br\<in>set rs. \<exists>i req x. server e i req = Response x \<and> restOutcome x = Inr br" by blast
      from ph n Inr False have "fst (postWithREST_loop e base hs b n wb w)
          = activities br @ fst (postWithREST_loop e base hs b (Suc n) False ?w2)"
        by (simp add: postWithREST_loop.simps[of _ _ _ _ n] Let_def split: prod.splits)
      with rs(2) have "fst (postWithREST_loop e base hs b n wb w) = concat (map activities (br # rs))"
        by simp
      moreover have "length (br # rs) \<le> MAX_TURN - n" using rs(1) n by simp
      moreover have "\<forall>br\<in>set (br # rs). \<exists>i req x. server e i req = Response x \<and> restOutcome x = Inr br"
        using rs(3) src by simp
      ultimately show ?thesis by blast
    qed
  qed
qed

lemma rest_loop_phases:
  "\<exists>ps. length ps \<le> MAX_TURN - n
     \<and> requests (snd (snd (postWithREST_loop e base hs b n wb w))) = requests w @ concat ps
     \<and> (\<forall>p\<in>set ps. p \<noteq> [] \<and> length p \<le> RETRY_COUNT + 1 \<and> (\<exists>req. p = replicate (length p) req))"
proof (induction "MAX_TURN - n" arbitrary: n wb w)
  case 0
  then have "requests (snd (snd (postWithREST_loop e base hs b n wb w))) = requests w @ concat []"
    by (simp add: postWithREST_loop.simps[of _ _ _ _ n])
  then show ?case by (intro exI[of _ "[]"]) simp
next
  case (Suc d)
  then have n: "n < MAX_TURN" and d: "d = MAX_TURN - Suc n" by auto
  let ?req = "restRequest base hs b wb (conversationId w)"
  from phase_issues[where input = "restInput e base hs b wb" and mk = "restRequest base hs b wb"
      and r = RETRY_COUNT and onF = onFailedAttempt and main = "mainError e" and errs = "[]"
      and w = w and cur = None, OF restInput_step]
  obtain k res cur' where k: "1 \<le> k" "k \<le> Suc RETRY_COUNT"
    and ph: "pRetry (restInput e base hs b wb) onFailedAttempt (mainError e) RETRY_COUNT [] (w, None)
       = (res, (w\<lparr>requests := requests w @ replicate k ?req\<rparr>, cur'))" by blast
  let ?p = "replicate k ?req"
  let ?w1 = "w\<lparr>requests := requests w @ ?p\<rparr>"
  have p: "?p \<noteq> [] \<and> length ?p \<le> RETRY_COUNT + 1 \<and> (\<exists>req. ?p = replicate (length ?p) req)"
    using k by auto
  have one: "length [?p] \<le> MAX_TURN - n" using n by simp
  show ?case
  proof (cases "\<exists>botResponse. res = Inr botResponse \<and> action botResponse = ''continue''")
    case False
    with ph n have "requests (snd (snd (postWithREST_loop e base hs b n wb w)))
        = requests w @ concat [?p]"
      by (cases res) (auto simp: postWithREST_loop.simps[of _ _ _ _ n] Let_def)
    with p one show ?thesis by (intro exI[of _ "[?p]"]) simp
  next
    case True
    then obtain botResponse where br: "res = Inr botResponse" "action botResponse = ''continue''"
      by blast
    let ?w2 = "if truthy (bot_conversationId botResponse)
               then ?w1\<lparr>conversationId := bot_conversationId botResponse\<rparr> else ?w1"
    have w2: "requests ?w2 = requests w @ ?p" by simp
    from Suc.hyps(1)[OF d, of False ?w2] obtain ps where
      ps: "length ps \<le> MAX_TURN - Suc n"
        "requests (snd (snd (postWithREST_loop e base hs b (Suc n) False ?w2))) = requests ?w2 @ concat ps"
        "\<forall>p\<in>set ps. p \<noteq> [] \<and> length p \<le> RETRY_COUNT + 1 \<and> (\<exists>req. p = replicate (length p) req)"
      by blast
    from ph n br have "snd (snd (postWithREST_loop e base hs b n wb w))
        = snd (snd (postWithREST_loop e base hs b (Suc n) False ?w2))"
      by (simp add: postWithREST_loop.simps[of _ _ _ _ n] Let_def split: prod.splits)
    with ps(2) w2 have "requests (snd (snd (postWithREST_loop e base hs b n wb w)))
        = requests w @ concat (?p # ps)" by simp
    moreover have "length (?p # ps) \<le> MAX_TURN - n" using ps(1) n by simp
    moreover have "\<forall>q\<in>set (?p # ps). q \<noteq> [] \<and> length q \<le> RETRY_COUNT + 1
                     \<and> (\<exists>req. q = replicate (length q) req)"
      using ps(3) p by simp
    ultimately show ?thesis by blast
  qed
qed

text \<open>
  The ceiling is one of iterations, not of HTTP requests: each iteration is a request
  phase, and a phase repeats its request when an attempt fails at the transport level.
  With a server that is unavailable once and then answers \<^verbatim>\<open>continue\<close> for ever,
  the first iteration takes two requests and the turn ends without error after 1001
  requests.
\<close>

lemma unavailable_first_phase:
  "pRetry (restInput (test_env Rest unavailable_then_continue) test_baseURL None [] True)
      onFailedAttempt (mainError (test_env Rest unavailable_then_continue)) RETRY_COUNT []
      (new_engine, None)
     = (Inr \<lparr>action = ''continue'', activities = [message_activity ''Hello, World!''],
              bot_conversationId = None\<rparr>,
        (new_engine\<lparr>requests := replicate 2 (restRequest test_baseURL None [] True None)\<rparr>,
         Some \<lparr>status = 200, content_type = Some ''application/json'',
               json = Some \<lparr>action = ''continue'', activities = [message_activity ''Hello, World!''],
                             bot_conversationId = None\<rparr>,
               resp_body = None\<rparr>))"
  by code_simp

theorem rest_turn_over_1000_requests:
  "fst (snd (postWithREST (test_env Rest unavailable_then_continue) test_baseURL None [] new_engine))
     = None
   \<and> length (requests (snd (snd
        (postWithREST (test_env Rest unavailable_then_continue) test_baseURL None [] new_engine))))
     = 1001"
proof -
  let ?e = "test_env Rest unavailable_then_continue"
  let ?reply = "\<lambda>n::nat. \<lparr>action = ''continue'', activities = [message_activity ''Hello, World!''],
                   bot_conversationId = None\<rparr>"
  let ?w2 = "new_engine\<lparr>requests := replicate 2 (restRequest test_baseURL None [] True None)\<rparr>"
  have srv: "\<forall>n req. 1 \<le> n \<longrightarrow> (\<exists>x. server ?e n req = Response x \<and> ok x
                  \<and> json x = Some (?reply n) \<and> action (?reply n) = ''continue'')"
    by (simp add: test_env_def unavailable_then_continue_def always_continue_def
          json_response_def ok_def)
  have "1 \<le> length (requests ?w2)" by simp
  from continue_loop_from[OF srv this, of test_baseURL None "[]" 1 False]
  obtain w' where
    rest: "postWithREST_loop ?e test_baseURL None [] 1 False ?w2
       = (concat (map (\<lambda>i. activities (?reply i))
             [length (requests ?w2) ..< length (requests ?w2) + (MAX_TURN - 1)]), None, w')"
      "length (requests w') = length (requests ?w2) + (MAX_TURN - 1)" by blast
  have "postWithREST ?e test_baseURL None [] new_engine
      = (activities (?reply 0) @ concat (map (\<lambda>i. activities (?reply i))
             [length (requests ?w2) ..< length (requests ?w2) + (MAX_TURN - 1)]), None, w')"
    using rest(1)
    by (simp add: postWithREST_def postWithREST_loop.simps[of _ _ _ _ 0] unavailable_first_phase
          MAX_TURN_def truthy_def)
  with rest(2) show ?thesis by (simp add: MAX_TURN_def)
qed

text \<open>
  Claim C8, as amended. In REST mode a turn performs at most \<open>MAX_TURN = 1000\<close>
  iterations of the request loop: the requests of a turn are those of at most 1000
  request phases, each of 1 to \<open>RETRY_COUNT + 1\<close> attempts of one request. When the
  server answers every request with a well-formed response whose action is
  \<^verbatim>\<open>continue\<close>, the turn ends without error after the 1000th response, having
  issued exactly 1000 requests and yielded the activities of the 1000 responses in
  order. Whatever the server does, the activities of a turn are those of at most 1000
  responses it gave. When no answer is a failure at the transport level every iteration
  is a single request, so the turn issues at most 1000; in any case it issues at most
  \<open>(RETRY_COUNT + 1) * MAX_TURN\<close>.
\<close>

theorem rest_turn_ceiling:
  "(\<exists>ps. length ps \<le> MAX_TURN
       \<and> drop (length (requests w)) (requests (snd (snd (postWithREST e base headers body w))))
           = concat ps
       \<and> (\<forall>p\<in>set ps. p \<noteq> [] \<and> length p \<le> RETRY_COUNT + 1
             \<and> (\<exists>req. p = replicate (length p) req)))
   \<and> ((\<forall>n req. \<exists>x. server e n req = Response x \<and> ok x \<and> json x = Some (reply n)
        \<and> action (reply n) = ''continue'')
      \<longrightarrow> (\<exists>w'. postWithREST e base headers body w
              = (concat (map (\<lambda>i. activities (reply i))
                   [length (requests w) ..< length (requests w) + 1000]), None, w')
            \<and> length (requests w') = length (requests w) + 1000))
   \<and> (\<exists>rs. length rs \<le> MAX_TURN
         \<and> fst (postWithREST e base headers body w) = concat (map activities rs)
         \<and> (\<forall>br\<in>set rs. \<exists>i req x. server e i req = Response x \<and> restOutcome x = Inr br))
   \<and> ((\<forall>n req. \<not> transport_failure (server e n req))
      \<longrightarrow> length (requests (snd (snd (postWithREST e base headers body w))))
            \<le> length (requests w) + MAX_TURN)
   \<and> length (requests (snd (snd (postWithREST e base headers body w))))
       \<le> length (requests w) + (RETRY_COUNT + 1) * MAX_TURN"
proof (intro conjI impI)
  from rest_loop_phases[of 0 e base headers body True w] obtain ps where
    ps: "length ps \<le> MAX_TURN"
      "requests (snd (snd (postWithREST e base headers body w))) = requests w @ concat ps"
      "\<forall>p\<in>set ps. p \<noteq> [] \<and> length p \<le> RETRY_COUNT + 1 \<and> (\<exists>req. p = replicate (length p) req)"
    by (auto simp: postWithREST_def)
  from ps(2) have "drop (length (requests w))
      (requests (snd (snd (postWithREST e base headers body w)))) = concat ps" by simp
  with ps(1,3)
  show "\<exists>ps. length ps \<le> MAX_TURN
       \<and> drop (length (requests w)) (requests (snd (snd (postWithREST e base headers body w))))
           = concat ps
       \<and> (\<forall>p\<in>set ps. p \<noteq> [] \<and> length p \<le> RETRY_COUNT + 1
             \<and> (\<exists>req. p = replicate (length p) req))" by blast
next
  assume "\<forall>n req. \<exists>x. server e n req = Response x \<and> ok x \<and> json x = Some (reply n)
        \<and> action (reply n) = ''continue''"
  from always_continue_loop[OF this, of base headers body 0 True w]
  show "\<exists>w'. postWithREST e base headers body w
              = (concat (map (\<lambda>i. activities (reply i))
                   [length (requests w) ..< length (requests w) + 1000]), None, w')
            \<and> length (requests w') = length (requests w) + 1000"
    by (simp add: postWithREST_def MAX_TURN_def)
next
  from rest_loop_responses[of 0 e base headers body True w]
  show "\<exists>rs. length rs \<le> MAX_TURN
         \<and> fst (postWithREST e base headers body w) = concat (map activities rs)
         \<and> (\<forall>br\<in>set rs. \<exists>i req x. server e i req = Response x \<and> restOutcome x = Inr br)"
    by (simp add: postWithREST_def)
next
  assume "\<forall>n req. \<not> transport_failure (server e n req)"
  from no_failure_loop[OF this, of base headers body 0 True w]
  show "length (requests (snd (snd (postWithREST e base headers body w))))
            \<le> length (requests w) + MAX_TURN"
    by (simp add: postWithREST_def)
next
  from rest_turn_requests[of e base headers body w] obtain k new where
    "k \<le> RETRY_COUNT + 1"
    "requests (snd (snd (postWithREST e base headers body w)))
       = requests w @ replicate k (restRequest base headers body True (conversationId w)) @ new"
    "length new \<le> (RETRY_COUNT + 1) * (MAX_TURN - 1)" by blast
  then show "length (requests (snd (snd (postWithREST e base headers body w))))
       \<le> length (requests w) + (RETRY_COUNT + 1) * MAX_TURN"
    by (simp add: RETRY_COUNT_def MAX_TURN_def)
qed

theorem rest_turn_ceiling_witness:
  "\<exists>w'. postWithREST (test_env Rest always_continue) test_baseURL None [] new_engine
      = (concat (map (\<lambda>i. [message_activity ''Hello, World!'']) [0 ..< 1000]), None, w')
    \<and> length (requests w') = 1000"
  using rest_turn_ceiling[where e = "test_env Rest always_continue" and w = new_engine
      and base = test_baseURL and headers = None and body = "[]"
      and reply = "\<lambda>n. \<lparr>action = ''continue'', activities = [message_activity ''Hello, World!''],
            bot_conversationId = None\<rparr>"]
  by (simp add: test_env_def always_continue_def json_response_def ok_def new_engine_def)

section \<open>The conversation id\<close>

text \<open>
  In the server-sent-events reader an id that is set is never replaced: the transform
  only assigns when the engine has none.
\<close>

lemma transform_conversationId:
  "truthy (conversationId w) \<Longrightarrow> transform evs w = (ys, r, w') \<Longrightarrow> conversationId w' = conversationId w"
proof (induction evs arbitrary: ys r w')
  case Nil
  then show ?case by simp
next
  case (Cons ev evs)
  obtain ys' r' w'' where tr: "transform evs w = (ys', r', w'')"
    by (cases "transform evs w") auto
  from Cons.IH[OF Cons.prems(1) tr] have "conversationId w'' = conversationId w" .
  with Cons.prems tr show ?case
    by (auto split: if_splits option.splits)
qed

lemma sse_keeps_conversationId:
  assumes "truthy (conversationId w)"
  shows "conversationId (snd (snd (postWithServerSentEvents e base hs b w))) = conversationId w"
proof -
  from phase_issues[where input = "sseInput e base hs b" and mk = "sseRequest base hs b"
      and r = RETRY_COUNT and onF = onFailedAttempt and main = "mainError e" and errs = "[]"
      and w = w and cur = None, OF sseInput_step]
  obtain k res cur' where
    ph: "pRetry (sseInput e base hs b) onFailedAttempt (mainError e) RETRY_COUNT [] (w, None)
       = (res, (w\<lparr>requests := requests w @ replicate k (sseRequest base hs b (conversationId w))\<rparr>, cur'))"
    by blast
  let ?w1 = "w\<lparr>requests := requests w @ replicate k (sseRequest base hs b (conversationId w))\<rparr>"
  show ?thesis
  proof (cases res)
    case (Inl err)
    with ph show ?thesis by (simp add: postWithServerSentEvents_def report_def)
  next
    case (Inr evs)
    obtain ys r w' where tr: "transform evs ?w1 = (ys, r, w')" by (cases "transform evs ?w1") auto
    from transform_conversationId[OF _ tr] assms have "conversationId w' = conversationId w" by simp
    with ph Inr tr show ?thesis by (simp add: postWithServerSentEvents_def)
  qed
qed

text \<open>
  Claim C2 says the same of the whole engine. The REST loop does not keep to it: it
  assigns whenever a response carries a conversation id. Here the conversation is
  started over REST and the server names it \<^verbatim>\<open>c-00001\<close>; the answer to the next
  turn names it \<^verbatim>\<open>c-00002\<close>, and the engine's id is replaced.
\<close>

theorem rest_overwrites_conversationId:
  "conversationId (snd (snd (startNewConversation (test_env Rest id_changing) True new_engine)))
     = Some ''c-00001''
   \<and> conversationId (snd (snd (executeTurn (test_env Rest id_changing) (message_activity ''Morning.'')
        (snd (snd (startNewConversation (test_env Rest id_changing) True new_engine))))))
     = Some ''c-00002''"
  by code_simp

section \<open>Failure of the facade\<close>

lemma postActivities_cached:
  "cached f = Some err \<Longrightarrow> postActivities ps f = (replicate (length ps) [Start, Error err], f)"
  by (induction ps) (auto simp: postActivity_def)

lemma postActivities_connectionStatus:
  "cached (snd (postActivities ps f)) = None
     \<Longrightarrow> connectionStatus_seen (snd (postActivities ps f)) = connectionStatus_seen f \<and> cached f = None"
proof (induction ps arbitrary: f)
  case Nil
  then show ?case by simp
next
  case (Cons p ps)
  obtain execute act where p: "p = (execute, act)" by (cases p)
  obtain obs f' where pa: "postActivity execute act f = (obs, f')" by (cases "postActivity execute act f")
  have sn: "snd (postActivities (p # ps) f) = snd (postActivities ps f')"
    using pa p by (cases "postActivities ps f'") simp
  with Cons.prems have c: "cached (snd (postActivities ps f')) = None" by simp
  from Cons.IH[OF c] have ih: "connectionStatus_seen (snd (postActivities ps f')) = connectionStatus_seen f'"
    "cached f' = None" by auto
  from pa ih(2) have "connectionStatus_seen f' = connectionStatus_seen f \<and> cached f = None"
    by (auto simp: postActivity_def facade_fail_def split: option.splits execute_result.splits)
  moreover have "snd (postActivities (p # ps) f) = snd (postActivities ps f')"
    using pa p by (cases "postActivities ps f'") simp
  ultimately show ?case using ih(1) by simp
qed

text \<open>
  Claim C9. When \<^verbatim>\<open>execute\<close> throws, or returns a promise that rejects, for a posted
  activity (after any number of posts that succeeded): the subscriber of that
  \<^verbatim>\<open>postActivity\<close> receives the error; \<^verbatim>\<open>connectionStatus$\<close> has emitted, in
  order, Uninitialized, Connecting, Online, FailedToConnect and has completed;
  \<^verbatim>\<open>activity$\<close> has completed; and every later \<^verbatim>\<open>postActivity\<close>, whatever its
  \<^verbatim>\<open>execute\<close> would do, receives the same error and changes nothing.
\<close>

theorem facade_failure_is_terminal:
  assumes "execute act = Throws err \<or> execute act = Rejects err"
      and "f = snd (postActivities earlier (facade_start initialActivities))"
      and "cached f = None"
  shows "fst (postActivity execute act f) = [Start, Error err]
         \<and> connectionStatus_seen (snd (postActivity execute act f))
             = [Start, Next Uninitialized, Next Connecting, Next Online, Next FailedToConnect, Complete]
         \<and> activity_seen (snd (postActivity execute act f)) = activity_seen f @ [Complete]
         \<and> postActivities later (snd (postActivity execute act f))
             = (replicate (length later) [Start, Error err], snd (postActivity execute act f))"
proof -
  from assms(2,3) postActivities_connectionStatus[of earlier "facade_start initialActivities"]
  have cs: "connectionStatus_seen f = [Start, Next Uninitialized, Next Connecting, Next Online]"
    by (simp add: facade_start_def)
  from assms(1,3) have pa: "postActivity execute act f = ([Start, Error err], facade_fail err f)"
    by (auto simp: postActivity_def)
  have "cached (facade_fail err f) = Some err" by (simp add: facade_fail_def)
  from postActivities_cached[OF this, of later] pa cs show ?thesis
    by (simp add: facade_fail_def)
qed

theorem facade_failure_is_terminal_witness:
  "fst (postActivity (\<lambda>a. Throws (StrategyError ''artificial'')) (message_activity ''Aloha!'')
         (facade_start []))
     = [Start, Error (StrategyError ''artificial'')]
   \<and> connectionStatus_seen
       (snd (postActivity (\<lambda>a. Throws (StrategyError ''artificial'')) (message_activity ''Aloha!'')
          (facade_start [])))
     = [Start, Next Uninitialized, Next Connecting, Next Online, Next FailedToConnect, Complete]
   \<and> activity_seen
       (snd (postActivity (\<lambda>a. Throws (StrategyError ''artificial'')) (message_activity ''Aloha!'')
          (facade_start [])))
     = [Start, Complete]
   \<and> fst (postActivities [(\<lambda>a. Resolves [], message_activity ''Aloha!'')]
       (snd (postActivity (\<lambda>a. Throws (StrategyError ''artificial'')) (message_activity ''Aloha!'')
          (facade_start []))))
     = [[Start, Error (StrategyError ''artificial'')]]"
proof -
  have h1: "(\<lambda>a::activity. Throws (StrategyError ''artificial'')) (message_activity ''Aloha!'')
              = Throws (StrategyError ''artificial'')
            \<or> (\<lambda>a::activity. Throws (StrategyError ''artificial'')) (message_activity ''Aloha!'')
              = Rejects (StrategyError ''artificial'')" by simp
  have h2: "facade_start [] = snd (postActivities [] (facade_start []))" by simp
  have h3: "cached (facade_start []) = None" by (simp add: facade_start_def)
  from facade_failure_is_terminal[where execute = "\<lambda>a. Throws (StrategyError ''artificial'')"
      and act = "message_activity ''Aloha!''" and err = "StrategyError ''artificial''"
      and later = "[(\<lambda>a. Resolves [], message_activity ''Aloha!'')]", OF h1 h2 h3]
  show ?thesis by (simp add: facade_start_def)
qed

section \<open>The scenarios of the specification\<close>

text \<open>The model run on the literal scenarios. S1: three activities over three hops in
  REST mode.\<close>

lemma scenario_rest_three_hops:
  "turnGenerator (test_env Rest three_hops) (StartNewConversation True) new_engine
     = ([message_activity ''Hello, World!'', message_activity ''Aloha!'', message_activity ''Bye''],
        Inr createExecuteTurn,
        \<lparr>conversationId = Some ''c-00001'',
         requests =
           [restRequest test_baseURL (Some [(''x-dummy'', ''dummy'')])
              [(''dummy'', JString ''dummy''), (''emitStartConversationEvent'', JBoolean True)]
              True None,
            restRequest test_baseURL (Some [(''x-dummy'', ''dummy'')])
              [(''dummy'', JString ''dummy''), (''emitStartConversationEvent'', JBoolean True)]
              False (Some ''c-00001''),
            restRequest test_baseURL (Some [(''x-dummy'', ''dummy'')])
              [(''dummy'', JString ''dummy''), (''emitStartConversationEvent'', JBoolean True)]
              False (Some ''c-00001'')],
         prepared = [PrepareStartNewConversation], tracked = []\<rparr>)"
  by code_simp

lemma scenario_rest_headers:
  "map req_headers
      (requests (snd (snd (startNewConversation (test_env Rest three_hops) True new_engine))))
     = [[(''x-dummy'', ''dummy''), (''content-type'', ''application/json'')],
        [(''x-dummy'', ''dummy''), (''x-ms-conversationid'', ''c-00001''),
         (''content-type'', ''application/json'')],
        [(''x-dummy'', ''dummy''), (''x-ms-conversationid'', ''c-00001''),
         (''content-type'', ''application/json'')]]"
  by code_simp

text \<open>S2: one event stream, one request.\<close>

lemma scenario_event_stream:
  "turnGenerator (test_env ServerSentEvents event_stream) (StartNewConversation True) new_engine
     = ([conversation_activity ''c-00001'' ''Hello, World!'',
         conversation_activity ''c-00001'' ''Aloha!''],
        Inr createExecuteTurn,
        \<lparr>conversationId = Some ''c-00001'',
         requests =
           [sseRequest test_baseURL (Some [(''x-dummy'', ''dummy'')])
              [(''dummy'', JString ''dummy''), (''emitStartConversationEvent'', JBoolean True)] None],
         prepared = [PrepareStartNewConversation], tracked = []\<rparr>)"
  by code_simp

text \<open>S4: the handle that ends the first turn, invoked twice.\<close>

lemma scenario_obsoleted_handle:
  "(case createHalfDuplexChatAdapter None of
      (it, w0) \<Rightarrow>
        (case turnGenerator (test_env Rest three_hops) it w0 of
           (ys, Inr h, w1) \<Rightarrow>
             map (map_sum message id)
               (fst (invocations engine_executeTurn
                  [message_activity ''Morning.'', message_activity ''Morning.''] (h, w1)))
         | (ys, Inl err, w1) \<Rightarrow> []))
     = [Inr (ExecuteTurn (message_activity ''Morning.'')),
        Inl (Some ''This executeTurn() function is obsoleted. Please use a new one.'')]"
  by code_simp

text \<open>S6 and its neighbours: a 404 ends the request phase at once, also after a 503;
  so does a response of the wrong content type in server-sent-events mode.\<close>

lemma scenario_not_found:
  "(case startNewConversation (test_env Rest (\<lambda>n req. status_response 404)) True new_engine of
      (ys, err, w) \<Rightarrow> (ys, err, length (requests w)))
     = ([], Some (ServerReturned 404), 1)"
  by code_simp

lemma scenario_unavailable_then_not_found:
  "(case startNewConversation (test_env Rest unavailable_then_not_found) True new_engine of
      (ys, err, w) \<Rightarrow> (ys, err, length (requests w)))
     = ([], Some (ServerReturned 404), 2)"
  by code_simp

lemma scenario_wrong_content_type:
  "(case startNewConversation (test_env ServerSentEvents json_not_events) True new_engine of
      (ys, err, w) \<Rightarrow> (ys, err, length (requests w)))
     = ([], Some (WrongContentType (Some ''application/json'')), 1)"
  by code_simp

end
